theory Spec2Isabelle
  imports Complex_Main "HOL-Library.Char_ord" "HOL-Library.List_Lexorder"
begin

section \<open>JSON values and JavaScript objects\<close>

text \<open>
  The values \<^verbatim>\<open>JSON.parse\<close> yields. A JavaScript string is a sequence of code units and
  is modelled by \<^typ>\<open>string\<close>; a number is modelled by the exact rational its decimal
  numeral denotes (rounding to a double is not modelled: the code under study never
  computes with numbers, it only asks for their \<^verbatim>\<open>typeof\<close>). An object is the list of
  its own properties in the order \<^verbatim>\<open>Object.keys\<close> enumerates them.
\<close>

datatype json =
    JNull
  | JBool bool
  | JNum rat
  | JStr string
  | JArr "json list"
  | JObj "(string \<times> json) list"

text \<open>\<^verbatim>\<open>typeof v === 'object' && v !== null\<close>: arrays and objects.\<close>

fun is_object :: "json \<Rightarrow> bool" where
  "is_object (JArr items) = True"
| "is_object (JObj kvs) = True"
| "is_object v = False"

text \<open>
  The order of the properties of an object. JavaScript enumerates the own properties
  whose key is an array index (the decimal numeral, without superfluous zero, of an
  integer below \<^verbatim>\<open>2**32 - 1\<close>) first, by ascending index, and the other properties after
  them in the order of their creation.
\<close>

definition is_digit :: "char \<Rightarrow> bool" where
  "is_digit c = (c \<in> set ''0123456789'')"

definition digit_value :: "char \<Rightarrow> nat" where
  "digit_value c = of_char c - 48"

definition digits_value :: "string \<Rightarrow> nat" where
  "digits_value ds = fold (\<lambda>c n. 10 * n + digit_value c) ds 0"

definition index_value :: "string \<Rightarrow> int" where
  "index_value ds = fold (\<lambda>c n. 10 * n + int (digit_value c)) ds 0"

definition array_index :: "string \<Rightarrow> int option" where
  "array_index k =
     (if k \<noteq> [] \<and> list_all is_digit k \<and> (k = ''0'' \<or> hd k \<in> set ''123456789'')
         \<and> index_value k < 4294967295
      then Some (index_value k) else None)"

text \<open>A new property with the array index \<open>n\<close> takes its place among the indices.\<close>

fun insert_index :: "int \<Rightarrow> string \<Rightarrow> 'v \<Rightarrow> (string \<times> 'v) list \<Rightarrow> (string \<times> 'v) list" where
  "insert_index n k v [] = [(k, v)]"
| "insert_index n k v ((k', v') # kvs) =
     (case array_index k' of
        Some m \<Rightarrow> if m < n then (k', v') # insert_index n k v kvs else (k, v) # (k', v') # kvs
      | None \<Rightarrow> (k, v) # (k', v') # kvs)"

text \<open>An existing property keeps its place and takes the new value.\<close>

fun obj_update :: "(string \<times> 'v) list \<Rightarrow> string \<Rightarrow> 'v \<Rightarrow> (string \<times> 'v) list" where
  "obj_update [] k v = []"
| "obj_update ((k', v') # kvs) k v =
     (if k' = k then (k, v) # kvs else (k', v') # obj_update kvs k v)"

text \<open>
  The definition of the own property \<open>k\<close> with the value \<open>v\<close>, as \<^verbatim>\<open>JSON.parse\<close> does for
  each member of an object it builds: every key, also \<^verbatim>\<open>__proto__\<close>, becomes an own
  property.
\<close>

definition obj_define :: "(string \<times> 'v) list \<Rightarrow> string \<Rightarrow> 'v \<Rightarrow> (string \<times> 'v) list" where
  "obj_define kvs k v =
     (if k \<in> set (map fst kvs) then obj_update kvs k v
      else case array_index k of
             Some n \<Rightarrow> insert_index n k v kvs
           | None \<Rightarrow> kvs @ [(k, v)])"

text \<open>
  The assignment \<^verbatim>\<open>o[k] = v\<close> on an object that inherits from \<^verbatim>\<open>Object.prototype\<close>, as
  the objects this code assigns to do (object literals, parsed objects and arrays). It
  defines the own property, with one exception: when \<open>k\<close> is \<^verbatim>\<open>__proto__\<close> and the object
  has no own property of that name, the assignment reaches the setter that
  \<^verbatim>\<open>Object.prototype\<close> has under this name, and no property is defined. (That setter
  replaces the prototype of the object when \<open>v\<close> is an object or \<^verbatim>\<open>null\<close>; own properties,
  which are all that \<^verbatim>\<open>Object.keys\<close> and \<^verbatim>\<open>JSON.stringify\<close> see, are not concerned. No
  object of this code is assigned \<^verbatim>\<open>__proto__\<close> twice, so the setter is there whenever
  such an assignment happens.)
\<close>

definition obj_set :: "(string \<times> 'v) list \<Rightarrow> string \<Rightarrow> 'v \<Rightarrow> (string \<times> 'v) list" where
  "obj_set kvs k v =
     (if k = ''__proto__'' \<and> k \<notin> set (map fst kvs) then kvs else obj_define kvs k v)"

text \<open>
  A JavaScript \<^verbatim>\<open>Set\<close> is the list of its elements in insertion order;
  \<^verbatim>\<open>s.add(x)\<close> appends \<open>x\<close> unless it is there already.
\<close>

definition set_add :: "'a list \<Rightarrow> 'a \<Rightarrow> 'a list" where
  "set_add s x = (if x \<in> set s then s else s @ [x])"

text \<open>\<^verbatim>\<open>prefix.endsWith('.') ? prefix.slice(0, -1) : prefix\<close>\<close>

definition stripDot :: "string \<Rightarrow> string" where
  "stripDot prefix =
     (if prefix \<noteq> [] \<and> last prefix = CHR ''.'' then butlast prefix else prefix)"

text \<open>The decimal numeral of an array index, as a template literal renders it.\<close>

fun show_nat :: "nat \<Rightarrow> string" where
  "show_nat n =
     (if n < 10 then [char_of (48 + n)]
      else show_nat (n div 10) @ [char_of (48 + n mod 10)])"

declare show_nat.simps [simp del]

section \<open>Exceptions\<close>

text \<open>
  A JavaScript computation returns a value, throws, or does not return at all (the
  program text a call evaluates may loop for ever); a thrown exception is represented
  by its message. \<open>try_catch\<close> is the statement \<^verbatim>\<open>try { ... } catch (e) { ... }\<close>,
  \<open>and_then\<close> the sequence of two computations.
\<close>

datatype 'a completion = Returned 'a | Thrown string | NoReturn

fun try_catch :: "'a completion \<Rightarrow> (string \<Rightarrow> 'a completion) \<Rightarrow> 'a completion" where
  "try_catch (Returned x) handler = Returned x"
| "try_catch (Thrown e) handler = handler e"
| "try_catch NoReturn handler = NoReturn"

fun and_then :: "'a completion \<Rightarrow> ('a \<Rightarrow> 'b completion) \<Rightarrow> 'b completion" where
  "and_then (Returned x) f = f x"
| "and_then (Thrown e) f = Thrown e"
| "and_then NoReturn f = NoReturn"

section \<open>JSON.parse\<close>

text \<open>
  \<^verbatim>\<open>JSON.parse\<close> is a function of the platform, modelled after the JSON grammar of
  ECMA-404: a lexer that reads the text code unit by code unit, then a parser that reads
  the tokens with a stack of the arrays and objects still open. Both are total.
\<close>

datatype token =
    TLBrace | TRBrace | TLBracket | TRBracket | TColon | TComma
  | TString string | TNumber rat | TTrue | TFalse | TNull

definition is_json_ws :: "char \<Rightarrow> bool" where
  "is_json_ws c = (c \<in> set [CHR 0x20, CHR 0x09, CHR 0x0A, CHR 0x0D])"

definition is_hex :: "char \<Rightarrow> bool" where
  "is_hex c = (c \<in> set ''0123456789abcdefABCDEF'')"

definition is_lower :: "char \<Rightarrow> bool" where
  "is_lower c = (c \<in> set ''abcdefghijklmnopqrstuvwxyz'')"

definition is_number_char :: "char \<Rightarrow> bool" where
  "is_number_char c = (is_digit c \<or> c \<in> set ''+-.eE'')"

definition hex_digit_value :: "char \<Rightarrow> nat" where
  "hex_digit_value c =
     (if is_digit c then of_char c - 48
      else if c \<in> set ''abcdef'' then of_char c - 87
      else of_char c - 55)"

definition hex_value :: "string \<Rightarrow> nat" where
  "hex_value hs = fold (\<lambda>c n. 16 * n + hex_digit_value c) hs 0"

text \<open>
  The number grammar: an optional minus sign, an integer part without a superfluous
  leading zero, an optional fraction, an optional exponent.
\<close>

definition exponent_digits :: "string \<Rightarrow> int \<Rightarrow> int option" where
  "exponent_digits ds sign =
     (if ds \<noteq> [] \<and> list_all is_digit ds then Some (sign * int (digits_value ds)) else None)"

fun parse_exponent :: "string \<Rightarrow> int option" where
  "parse_exponent [] = Some 0"
| "parse_exponent (c # r) =
     (if c = CHR ''e'' \<or> c = CHR ''E''
      then (case r of
              [] \<Rightarrow> None
            | s # ds \<Rightarrow>
                if s = CHR ''+'' then exponent_digits ds 1
                else if s = CHR ''-'' then exponent_digits ds (- 1)
                else exponent_digits r 1)
      else None)"

fun parse_fraction :: "string \<Rightarrow> (string \<times> string) option" where
  "parse_fraction [] = Some ([], [])"
| "parse_fraction (c # r) =
     (if c = CHR ''.''
      then (if takeWhile is_digit r = [] then None
            else Some (takeWhile is_digit r, dropWhile is_digit r))
      else Some ([], c # r))"

definition number_value :: "string \<Rightarrow> rat option" where
  "number_value s =
     (let neg = (s \<noteq> [] \<and> hd s = CHR ''-'');
          s1 = (if neg then tl s else s);
          ip = takeWhile is_digit s1
      in if ip = [] \<or> (length ip > 1 \<and> hd ip = CHR ''0'') then None
         else case parse_fraction (dropWhile is_digit s1) of
                None \<Rightarrow> None
              | Some (fp, s3) \<Rightarrow>
                  (case parse_exponent s3 of
                     None \<Rightarrow> None
                   | Some e \<Rightarrow>
                       let mant = of_nat (digits_value (ip @ fp));
                           scale = e - int (length fp);
                           mag = (if scale \<ge> 0 then mant * 10 ^ nat scale
                                  else mant / 10 ^ nat (- scale))
                       in Some (if neg then - mag else mag)))"

definition word_token :: "string \<Rightarrow> token option" where
  "word_token w =
     (if w = ''true'' then Some TTrue
      else if w = ''false'' then Some TFalse
      else if w = ''null'' then Some TNull
      else None)"

text \<open>
  The character an escape sequence of one letter denotes. The escape \<^verbatim>\<open>\uXXXX\<close> denotes
  the code unit \<open>XXXX\<close>; characters here are eight bits wide, so the code unit is kept
  modulo 256 (whether a text parses does not depend on it).
\<close>

definition escape_char :: "char \<Rightarrow> char option" where
  "escape_char c =
     (if c = CHR 0x22 \<or> c = CHR 0x5C \<or> c = CHR ''/'' then Some c
      else if c = CHR ''b'' then Some (CHR 0x08)
      else if c = CHR ''f'' then Some (CHR 0x0C)
      else if c = CHR ''n'' then Some (CHR 0x0A)
      else if c = CHR ''r'' then Some (CHR 0x0D)
      else if c = CHR ''t'' then Some (CHR 0x09)
      else None)"

datatype lexer_state =
    Idle
  | InString string
  | InEscape string
  | InUnicode string string
  | InNumber string
  | InWord string

definition lex_idle :: "char \<Rightarrow> token list \<Rightarrow> (lexer_state \<times> token list) option" where
  "lex_idle c toks =
     (if is_json_ws c then Some (Idle, toks)
      else if c = CHR ''{'' then Some (Idle, toks @ [TLBrace])
      else if c = CHR ''}'' then Some (Idle, toks @ [TRBrace])
      else if c = CHR ''['' then Some (Idle, toks @ [TLBracket])
      else if c = CHR '']'' then Some (Idle, toks @ [TRBracket])
      else if c = CHR '':'' then Some (Idle, toks @ [TColon])
      else if c = CHR '','' then Some (Idle, toks @ [TComma])
      else if c = CHR 0x22 then Some (InString [], toks)
      else if c = CHR ''-'' \<or> is_digit c then Some (InNumber [c], toks)
      else if is_lower c then Some (InWord [c], toks)
      else None)"

fun lex_step :: "lexer_state \<Rightarrow> token list \<Rightarrow> char \<Rightarrow> (lexer_state \<times> token list) option" where
  "lex_step Idle toks c = lex_idle c toks"
| "lex_step (InString acc) toks c =
     (if c = CHR 0x22 then Some (Idle, toks @ [TString acc])
      else if c = CHR 0x5C then Some (InEscape acc, toks)
      else if (of_char c :: nat) < 32 then None
      else Some (InString (acc @ [c]), toks))"
| "lex_step (InEscape acc) toks c =
     (case escape_char c of
        Some e \<Rightarrow> Some (InString (acc @ [e]), toks)
      | None \<Rightarrow> if c = CHR ''u'' then Some (InUnicode acc [], toks) else None)"
| "lex_step (InUnicode acc hs) toks c =
     (if is_hex c
      then (if length hs = 3
            then Some (InString (acc @ [char_of (hex_value (hs @ [c]))]), toks)
            else Some (InUnicode acc (hs @ [c]), toks))
      else None)"
| "lex_step (InNumber acc) toks c =
     (if is_number_char c then Some (InNumber (acc @ [c]), toks)
      else case number_value acc of
             None \<Rightarrow> None
           | Some n \<Rightarrow> lex_idle c (toks @ [TNumber n]))"
| "lex_step (InWord acc) toks c =
     (if is_lower c then Some (InWord (acc @ [c]), toks)
      else case word_token acc of
             None \<Rightarrow> None
           | Some t \<Rightarrow> lex_idle c (toks @ [t]))"

fun lex_finish :: "lexer_state \<Rightarrow> token list \<Rightarrow> token list option" where
  "lex_finish Idle toks = Some toks"
| "lex_finish (InNumber acc) toks =
     (case number_value acc of None \<Rightarrow> None | Some n \<Rightarrow> Some (toks @ [TNumber n]))"
| "lex_finish (InWord acc) toks =
     (case word_token acc of None \<Rightarrow> None | Some t \<Rightarrow> Some (toks @ [t]))"
| "lex_finish (InString acc) toks = None"
| "lex_finish (InEscape acc) toks = None"
| "lex_finish (InUnicode acc hs) toks = None"

fun lex_run :: "lexer_state \<Rightarrow> token list \<Rightarrow> string \<Rightarrow> token list option" where
  "lex_run st toks [] = lex_finish st toks"
| "lex_run st toks (c # cs) =
     (case lex_step st toks c of
        None \<Rightarrow> None
      | Some (st', toks') \<Rightarrow> lex_run st' toks' cs)"

text \<open>
  The parser. A frame is an array or an object still open, with what it holds so far;
  \<open>KeyFrame\<close> is an object whose next value belongs to the key read last. A repeated
  key keeps its place and takes the later value.
\<close>

datatype frame =
    ArrayFrame "json list"
  | ObjectFrame "(string \<times> json) list"
  | KeyFrame "(string \<times> json) list" string

datatype parser_state =
    ExpectValue | ExpectValueOrEnd | ExpectKeyOrEnd | ExpectKey | ExpectColon | ExpectNext
  | Done json

fun put_value :: "json \<Rightarrow> frame list \<Rightarrow> (parser_state \<times> frame list) option" where
  "put_value v [] = Some (Done v, [])"
| "put_value v (ArrayFrame items # st) = Some (ExpectNext, ArrayFrame (items @ [v]) # st)"
| "put_value v (KeyFrame kvs key # st) =
     Some (ExpectNext, ObjectFrame (obj_define kvs key v) # st)"
| "put_value v (ObjectFrame kvs # st) = None"

fun begin_value :: "token \<Rightarrow> frame list \<Rightarrow> (parser_state \<times> frame list) option" where
  "begin_value (TString s) st = put_value (JStr s) st"
| "begin_value (TNumber n) st = put_value (JNum n) st"
| "begin_value TTrue st = put_value (JBool True) st"
| "begin_value TFalse st = put_value (JBool False) st"
| "begin_value TNull st = put_value JNull st"
| "begin_value TLBracket st = Some (ExpectValueOrEnd, ArrayFrame [] # st)"
| "begin_value TLBrace st = Some (ExpectKeyOrEnd, ObjectFrame [] # st)"
| "begin_value TRBrace st = None"
| "begin_value TRBracket st = None"
| "begin_value TColon st = None"
| "begin_value TComma st = None"

fun close_array :: "frame list \<Rightarrow> (parser_state \<times> frame list) option" where
  "close_array (ArrayFrame items # st) = put_value (JArr items) st"
| "close_array st = None"

fun close_object :: "frame list \<Rightarrow> (parser_state \<times> frame list) option" where
  "close_object (ObjectFrame kvs # st) = put_value (JObj kvs) st"
| "close_object st = None"

fun open_key :: "token \<Rightarrow> frame list \<Rightarrow> (parser_state \<times> frame list) option" where
  "open_key (TString key) (ObjectFrame kvs # st) = Some (ExpectColon, KeyFrame kvs key # st)"
| "open_key t st = None"

fun after_comma :: "frame list \<Rightarrow> (parser_state \<times> frame list) option" where
  "after_comma (ArrayFrame items # st) = Some (ExpectValue, ArrayFrame items # st)"
| "after_comma (ObjectFrame kvs # st) = Some (ExpectKey, ObjectFrame kvs # st)"
| "after_comma st = None"

fun parse_step :: "parser_state \<Rightarrow> frame list \<Rightarrow> token \<Rightarrow> (parser_state \<times> frame list) option" where
  "parse_step ExpectValue st t = begin_value t st"
| "parse_step ExpectValueOrEnd st t =
     (if t = TRBracket then close_array st else begin_value t st)"
| "parse_step ExpectKeyOrEnd st t =
     (if t = TRBrace then close_object st else open_key t st)"
| "parse_step ExpectKey st t = open_key t st"
| "parse_step ExpectColon st t = (if t = TColon then Some (ExpectValue, st) else None)"
| "parse_step ExpectNext st t =
     (if t = TComma then after_comma st
      else if t = TRBracket then close_array st
      else if t = TRBrace then close_object st
      else None)"
| "parse_step (Done v) st t = None"

fun parse_run :: "parser_state \<Rightarrow> frame list \<Rightarrow> token list \<Rightarrow> json option" where
  "parse_run (Done v) st [] = Some v"
| "parse_run ps st [] = None"
| "parse_run ps st (t # ts) =
     (case parse_step ps st t of
        None \<Rightarrow> None
      | Some (ps', st') \<Rightarrow> parse_run ps' st' ts)"

definition JSON_parse :: "string \<Rightarrow> json option" where
  "JSON_parse text =
     (case lex_run Idle [] text of
        None \<Rightarrow> None
      | Some toks \<Rightarrow> parse_run ExpectValue [] toks)"

text \<open>
  \<^verbatim>\<open>JSON.parse(text)\<close> as a computation: it throws a \<^verbatim>\<open>SyntaxError\<close> whose message is
  chosen by the engine; the message is the parameter \<open>parse_error_message\<close>.
\<close>

definition JSON_parse_or_throw :: "(string \<Rightarrow> string) \<Rightarrow> string \<Rightarrow> json completion" where
  "JSON_parse_or_throw parse_error_message text =
     (case JSON_parse text of
        None \<Rightarrow> Thrown (parse_error_message text)
      | Some v \<Rightarrow> Returned v)"

section \<open>The syntax repairer\<close>

text \<open>
  The classes \<^verbatim>\<open>\s\<close> and \<^verbatim>\<open>\w\<close> of a JavaScript regular expression, on code units
  below 256.
\<close>

definition is_space :: "char \<Rightarrow> bool" where
  "is_space c = (c \<in> set [CHR 0x09, CHR 0x0A, CHR 0x0B, CHR 0x0C, CHR 0x0D, CHR 0x20, CHR 0xA0])"

definition is_word :: "char \<Rightarrow> bool" where
  "is_word c =
     (c \<in> set ''abcdefghijklmnopqrstuvwxyzABCDEFGHIJKLMNOPQRSTUVWXYZ0123456789_'')"

text \<open>
  Fix 1 (line 136): \<^verbatim>\<open>replace(/([{,]\s*)(\w+)(\s*:)/g, '$1"$2"$3')\<close>. The classes \<^verbatim>\<open>\s\<close>,
  \<^verbatim>\<open>\w\<close> and the colon are disjoint, so at each position the greedy match is the only
  candidate; after a match the search goes on behind it.
\<close>

function quoteKeys :: "string \<Rightarrow> string" where
  "quoteKeys [] = []"
| "quoteKeys (c # cs) =
     (let r1 = dropWhile is_space cs;
          r2 = dropWhile is_word r1;
          r3 = dropWhile is_space r2
      in if (c = CHR ''{'' \<or> c = CHR '','') \<and> takeWhile is_word r1 \<noteq> []
            \<and> r3 \<noteq> [] \<and> hd r3 = CHR '':''
         then c # takeWhile is_space cs @ [CHR 0x22] @ takeWhile is_word r1 @ [CHR 0x22]
                @ takeWhile is_space r2 @ '':'' @ quoteKeys (tl r3)
         else c # quoteKeys cs)"
  by pat_completeness auto
termination
proof (relation "measure length", goal_cases)
  case 1
  show ?case by simp
next
  case (2 c cs r1 r2 r3)
  have "length (tl r3) \<le> length r3" by simp
  also have "\<dots> \<le> length r2" unfolding 2 by (rule length_dropWhile_le)
  also have "\<dots> \<le> length r1" unfolding 2 by (rule length_dropWhile_le)
  also have "\<dots> \<le> length cs" unfolding 2 by (rule length_dropWhile_le)
  finally show ?case by simp
next
  case 3
  then show ?case by simp
qed

text \<open>Fix 2 (line 139): \<^verbatim>\<open>replace(/'/g, '"')\<close>.\<close>

definition doubleQuotes :: "string \<Rightarrow> string" where
  "doubleQuotes s = map (\<lambda>c. if c = CHR 0x27 then CHR 0x22 else c) s"

text \<open>Fix 3 (line 142): \<^verbatim>\<open>replace(/}\s*{/g, '}, {')\<close>.\<close>

function addCommas :: "string \<Rightarrow> string" where
  "addCommas [] = []"
| "addCommas (c # cs) =
     (let r = dropWhile is_space cs
      in if c = CHR ''}'' \<and> r \<noteq> [] \<and> hd r = CHR ''{''
         then ''}, {'' @ addCommas (tl r)
         else c # addCommas cs)"
  by pat_completeness auto
termination
proof (relation "measure length", goal_cases)
  case 1
  show ?case by simp
next
  case (2 c cs r)
  have "length (tl r) \<le> length r" by simp
  also have "\<dots> \<le> length cs" unfolding 2 by (rule length_dropWhile_le)
  finally show ?case by simp
next
  case 3
  then show ?case by simp
qed

text \<open>
  Fix 4 (lines 145--146): \<^verbatim>\<open>replace(/,\s*}/g, '}')\<close> and \<^verbatim>\<open>replace(/,\s*\]/g, ']')\<close>,
  for the closing character \<open>close\<close>.
\<close>

function dropCommaBefore :: "char \<Rightarrow> string \<Rightarrow> string" where
  "dropCommaBefore close [] = []"
| "dropCommaBefore close (c # cs) =
     (let r = dropWhile is_space cs
      in if c = CHR '','' \<and> r \<noteq> [] \<and> hd r = close
         then close # dropCommaBefore close (tl r)
         else c # dropCommaBefore close cs)"
  by pat_completeness auto
termination
proof (relation "measure (\<lambda>(close, s). length s)", goal_cases)
  case 1
  show ?case by simp
next
  case (2 close c cs r)
  have "length (tl r) \<le> length r" by simp
  also have "\<dots> \<le> length cs" unfolding 2 by (rule length_dropWhile_le)
  finally show ?case by simp
next
  case 3
  then show ?case by simp
qed

text \<open>
  Fix 5 (line 149): \<^verbatim>\<open>replace(/([^\\])\\([^"\\/bfnrtu])/g, '$1\\\\$2')\<close>: a backslash
  after a code unit that is no backslash and before one that starts no escape sequence
  is doubled.
\<close>

fun escapeBackslashes :: "string \<Rightarrow> string" where
  "escapeBackslashes (a # b # c # cs) =
     (if a \<noteq> CHR 0x5C \<and> b = CHR 0x5C
         \<and> c \<notin> set [CHR 0x22, CHR 0x5C, CHR ''/'', CHR ''b'', CHR ''f'', CHR ''n'', CHR ''r'',
                      CHR ''t'', CHR ''u'']
      then a # CHR 0x5C # CHR 0x5C # c # escapeBackslashes cs
      else a # escapeBackslashes (b # c # cs))"
| "escapeBackslashes cs = cs"

text \<open>The five fixes in the order of the source (lines 133--149).\<close>

definition regexFixes :: "string \<Rightarrow> string" where
  "regexFixes jsonStr =
     escapeBackslashes
       (dropCommaBefore (CHR '']'')
          (dropCommaBefore (CHR ''}'')
             (addCommas (doubleQuotes (quoteKeys jsonStr)))))"

text \<open>
  The values the variable \<^verbatim>\<open>jsonStr\<close> and the property \<^verbatim>\<open>corrected\<close> can hold: a string,
  \<^verbatim>\<open>undefined\<close> (what \<^verbatim>\<open>JSON.stringify\<close> yields for a value it does not serialise), or any
  other value, of which the code only ever asks for the string \<^verbatim>\<open>JSON.parse\<close> converts
  it to; such a value is given by what that conversion does. (Where the conversion
  throws, the message is the one the handler of line 330 extracts; that the extraction
  throws again is not modelled.)
\<close>

datatype js_value = Str string | Undefined | Other "string completion"

fun to_text :: "js_value \<Rightarrow> string completion" where
  "to_text (Str s) = Returned s"
| "to_text Undefined = Returned ''undefined''"
| "to_text (Other conversion) = conversion"

text \<open>
  The result \<^verbatim>\<open>{ corrected, error }\<close> of the repairer; \<^verbatim>\<open>error\<close> is absent (\<open>None\<close>) or a
  message.
\<close>

record repair =
  corrected :: js_value
  error :: "string option"

text \<open>
  \<^verbatim>\<open>correctJsonSyntax(jsonStr)\<close> (lines 124--171), with its three nested \<^verbatim>\<open>try\<close>
  statements. The third stage hands the text to the evaluator of the platform:
  \<^verbatim>\<open>JSON.stringify(eval(`(${jsonStr})`))\<close>. This is a direct \<^verbatim>\<open>eval\<close>: the text runs as
  program code inside the function, where it can read and assign the variables in
  scope, and it need not terminate. The parameter \<open>js_eval\<close> gives, for the text, what
  the platform does with these two calls: the value the variable \<^verbatim>\<open>jsonStr\<close> holds
  afterwards, and whether the calls return the serialised value (a string or
  \<^verbatim>\<open>undefined\<close>), throw, or do not return. Of the variables in scope only \<^verbatim>\<open>jsonStr\<close>
  is read after the evaluation (\<^verbatim>\<open>errorMessage\<close> is a constant, which an assignment
  cannot change). What else the evaluated code does to the page is outside the model.
\<close>

definition correctJsonSyntax ::
  "(string \<Rightarrow> string) \<Rightarrow> (string \<Rightarrow> js_value \<times> js_value completion) \<Rightarrow> string
     \<Rightarrow> repair completion" where
  "correctJsonSyntax parse_error_message js_eval jsonStr =
     try_catch
       (and_then (JSON_parse_or_throw parse_error_message jsonStr)
          (\<lambda>_. Returned \<lparr>corrected = Str jsonStr, error = None\<rparr>))
       (\<lambda>errorMessage.
          try_catch
            (and_then (JSON_parse_or_throw parse_error_message (regexFixes jsonStr))
               (\<lambda>_. Returned \<lparr>corrected = Str (regexFixes jsonStr), error = None\<rparr>))
            (\<lambda>e2.
               case js_eval jsonStr of (jsonStr', stringified) \<Rightarrow>
                 try_catch
                   (and_then stringified
                      (\<lambda>obj. Returned
                         \<lparr>corrected = obj,
                          error = Some ''Used aggressive correction. Verify the result!''\<rparr>))
                   (\<lambda>e3. Returned
                      \<lparr>corrected = jsonStr',
                       error =
                         Some (''Could not fix JSON. Original error: '' @ errorMessage)\<rparr>)))"

section \<open>Processing options\<close>

text \<open>The state \<^verbatim>\<open>processingOptions\<close> (App.jsx, lines 52--60).\<close>

record options =
  autoFormat :: bool
  detectSchemas :: bool
  flattenNested :: bool
  maxDepth :: int
  trimLongValues :: bool
  maxValueLength :: int
  preserveArrays :: bool

definition defaultOptions :: options where
  "defaultOptions =
     \<lparr>autoFormat = True, detectSchemas = True, flattenNested = True, maxDepth = 3,
      trimLongValues = True, maxValueLength = 1000, preserveArrays = True\<rparr>"

section \<open>The field extractor\<close>

text \<open>
  \<^verbatim>\<open>extractFieldsFromJson(json, prefix, depth, maxDepth)\<close> (lines 174--217). The first
  argument is \<^verbatim>\<open>processingOptions.preserveArrays\<close>, the only option the function reads;
  the ceiling is its own fourth parameter. The local \<^verbatim>\<open>Set\<close> of the array branch
  is threaded through the loop over the samples (\<^verbatim>\<open>json.slice(0, Math.min(json.length, 3))\<close>
  is \<^term>\<open>take 3\<close>), the array \<^verbatim>\<open>fields\<close> of the object branch through the loop over
  the keys; the loop over \<^verbatim>\<open>Object.keys(json)\<close> with the reads \<^verbatim>\<open>json[key]\<close> is the loop
  over the properties.
\<close>

function extractFieldsFromJson :: "bool \<Rightarrow> json \<Rightarrow> string \<Rightarrow> nat \<Rightarrow> int \<Rightarrow> string list" where
  "extractFieldsFromJson pa JNull prefix depth maxDepth' =
     (if int depth > maxDepth' then [stripDot prefix] else [])"
| "extractFieldsFromJson pa (JArr items) prefix depth maxDepth' =
     (if int depth > maxDepth' then [stripDot prefix]
      else if pa \<or> items = [] then [stripDot prefix]
      else fold (\<lambda>item arrayFields.
             if is_object item
             then fold (\<lambda>field s. set_add s field)
                    (extractFieldsFromJson pa item prefix (depth + 1) maxDepth') arrayFields
             else set_add arrayFields (stripDot prefix))
           (take 3 items) [])"
| "extractFieldsFromJson pa (JObj kvs) prefix depth maxDepth' =
     (if int depth > maxDepth' then [stripDot prefix]
      else fold (\<lambda>(key, v) fields.
             if is_object v
             then fields @ extractFieldsFromJson pa v (prefix @ key @ ''.'') (depth + 1) maxDepth'
             else fields @ [prefix @ key])
           kvs [])"
| "extractFieldsFromJson pa (JBool b) prefix depth maxDepth' = [stripDot prefix]"
| "extractFieldsFromJson pa (JNum n) prefix depth maxDepth' = [stripDot prefix]"
| "extractFieldsFromJson pa (JStr s) prefix depth maxDepth' = [stripDot prefix]"
  by pat_completeness auto
termination
  by (relation "measure (\<lambda>(pa, j, prefix, depth, m). size j)")
     (auto dest!: in_set_takeD simp: less_Suc_eq_le size_list_estimation')

section \<open>The structure formatter\<close>

text \<open>
  The truncation step of \<^verbatim>\<open>formatJsonStructure\<close> (lines 233--238): a string value longer
  than \<^verbatim>\<open>maxValueLength\<close> becomes its first \<^verbatim>\<open>maxValueLength\<close> code units followed by
  three dots (\<^verbatim>\<open>substring\<close> reads a negative bound as 0).
\<close>

definition trimValue :: "options \<Rightarrow> json \<Rightarrow> json" where
  "trimValue opts v =
     (case v of
        JStr s \<Rightarrow>
          if trimLongValues opts \<and> int (length s) > maxValueLength opts
          then JStr (take (nat (maxValueLength opts)) s @ ''...'')
          else v
      | _ \<Rightarrow> v)"

text \<open>
  \<^verbatim>\<open>formatJsonStructure\<close> (lines 220--249). The keys are sorted by code units, the
  default order of \<^verbatim>\<open>Array.prototype.sort\<close>; \<^verbatim>\<open>jsonObj[key]\<close> is the lookup
  \<^term>\<open>map_of\<close>. The source formats the value after the truncation step; a value that is
  an object or an array then is the value the step was given, which the recursive call
  takes here.
\<close>

function formatJsonStructure :: "options \<Rightarrow> json \<Rightarrow> json" where
  "formatJsonStructure opts (JArr items) = JArr (map (formatJsonStructure opts) items)"
| "formatJsonStructure opts (JObj kvs) =
     JObj (fold (\<lambda>key orderedObj.
             case map_of kvs key of
               None \<Rightarrow> orderedObj
             | Some v \<Rightarrow>
                 if is_object (trimValue opts v)
                 then obj_set orderedObj key (formatJsonStructure opts v)
                 else obj_set orderedObj key (trimValue opts v))
           (sort (map fst kvs)) [])"
| "formatJsonStructure opts JNull = JNull"
| "formatJsonStructure opts (JBool b) = JBool b"
| "formatJsonStructure opts (JNum n) = JNum n"
| "formatJsonStructure opts (JStr s) = JStr s"
  by pat_completeness auto
termination
  by (relation "measure (\<lambda>(opts, j). size j)")
     (auto dest!: map_of_SomeD simp: less_Suc_eq_le size_list_estimation')

section \<open>The flattener\<close>

text \<open>
  \<^verbatim>\<open>flattenObject(obj, prefix, result, depth)\<close> (lines 252--298). The object \<^verbatim>\<open>result\<close>
  is mutated in place by the source and returned; here it is passed in and returned.
  \<^verbatim>\<open>prefix.slice(0, -1)\<close> is \<^term>\<open>butlast\<close>. The second argument stands for
  \<^verbatim>\<open>JSON.stringify\<close>, a function of the platform.
\<close>

function flattenObject ::
  "options \<Rightarrow> (json \<Rightarrow> string) \<Rightarrow> json \<Rightarrow> string \<Rightarrow> (string \<times> json) list \<Rightarrow> nat
     \<Rightarrow> (string \<times> json) list" where
  "flattenObject opts stringify JNull prefix result depth =
     (if int depth > maxDepth opts
      then obj_set result (butlast prefix) (JStr (stringify JNull))
      else obj_set result (butlast prefix) JNull)"
| "flattenObject opts stringify (JBool b) prefix result depth =
     (if int depth > maxDepth opts
      then obj_set result (butlast prefix) (JStr (stringify (JBool b)))
      else obj_set result (butlast prefix) (JBool b))"
| "flattenObject opts stringify (JNum n) prefix result depth =
     (if int depth > maxDepth opts
      then obj_set result (butlast prefix) (JStr (stringify (JNum n)))
      else obj_set result (butlast prefix) (JNum n))"
| "flattenObject opts stringify (JStr s) prefix result depth =
     (if int depth > maxDepth opts
      then obj_set result (butlast prefix) (JStr (stringify (JStr s)))
      else obj_set result (butlast prefix) (JStr s))"
| "flattenObject opts stringify (JArr items) prefix result depth =
     (if int depth > maxDepth opts
      then obj_set result (butlast prefix) (JStr (stringify (JArr items)))
      else if preserveArrays opts then obj_set result (butlast prefix) (JArr items)
      else if items = [] then obj_set result (butlast prefix) (JArr [])
      else if is_object (hd items)
      then fold (\<lambda>(index, item) result.
             flattenObject opts stringify item (prefix @ show_nat index @ ''.'') result
               (depth + 1))
           (enumerate 0 items) result
      else obj_set result (butlast prefix) (JArr items))"
| "flattenObject opts stringify (JObj kvs) prefix result depth =
     (if int depth > maxDepth opts
      then obj_set result (butlast prefix) (JStr (stringify (JObj kvs)))
      else fold (\<lambda>(key, v) result.
             if is_object v \<and> flattenNested opts
             then flattenObject opts stringify v (prefix @ key @ ''.'') result (depth + 1)
             else obj_set result (prefix @ key) v)
           kvs result)"
  by pat_completeness auto
termination
  apply (relation "measure (\<lambda>(opts, stringify, j, prefix, result, depth). size j)")
    apply (auto simp: in_set_enumerate_eq less_Suc_eq_le size_list_estimation')
  apply (metis nth_mem size_list_estimation' order_refl)
  done

section \<open>Processing one document\<close>

text \<open>
  The entries of the state \<^verbatim>\<open>processedEntries\<close> (the interface \<^verbatim>\<open>JsonEntry\<close>, lines 8--18).
  The fields \<^verbatim>\<open>id\<close>, \<^verbatim>\<open>error\<close> and \<^verbatim>\<open>fields\<close> are named \<open>entry_id\<close>, \<open>entry_error\<close>
  and \<open>entry_fields\<close>.
\<close>

datatype status = Processed | Error | Warning

record jsonEntry =
  entry_id :: string
  fileName :: string
  originalJson :: string
  correctedJson :: js_value
  formattedJson :: string
  entry_error :: "string option"
  entry_fields :: "string list"
  status :: status
  timestamp :: string

text \<open>
  The entry \<^verbatim>\<open>processJsonText\<close> stores for a document that needed no repair: the
  identifier, the file name, the text, the pretty-printed formatted value, the fields and
  the time stamp.
\<close>

definition stored_entry ::
  "string \<Rightarrow> string \<Rightarrow> string \<Rightarrow> string \<Rightarrow> string list \<Rightarrow> string \<Rightarrow> jsonEntry" where
  "stored_entry newId fileName' text pretty fieldList now =
     \<lparr>entry_id = newId, fileName = fileName', originalJson = text,
      correctedJson = Str text, formattedJson = pretty, entry_error = None,
      entry_fields = fieldList, status = Processed, timestamp = now\<rparr>"

text \<open>
  \<^verbatim>\<open>processJsonText(text, fileName, queueItemId)\<close> (lines 301--424), without the
  bookkeeping of the queue and of the view: the entry it creates, \<open>None\<close> when the text
  is blank; it does not return when the repairer, or the conversion of what the repairer
  returned to a string, does not. \<open>stringify_pretty\<close> stands for
  \<^verbatim>\<open>JSON.stringify(v, null, 2)\<close>, \<open>newId\<close> for the identifier (the queue item's, or one made
  of the clock and a random number), \<open>now\<close> for \<^verbatim>\<open>new Date().toISOString()\<close>. The field
  extractor is called with the value alone, so its ceiling is the default 3 of its
  parameter (line 339).
\<close>

definition processJsonText ::
  "options \<Rightarrow> (string \<Rightarrow> string) \<Rightarrow> (string \<Rightarrow> js_value \<times> js_value completion)
     \<Rightarrow> (json \<Rightarrow> string) \<Rightarrow> string \<Rightarrow> string \<Rightarrow> string \<Rightarrow> string
     \<Rightarrow> jsonEntry option completion" where
  "processJsonText opts parse_error_message js_eval stringify_pretty text fileName'
       newId now =
     (if list_all is_space text then Returned None
      else
        and_then
          (try_catch
             (and_then (correctJsonSyntax parse_error_message js_eval text)
                (\<lambda>r.
                   and_then
                     (try_catch
                        (and_then (to_text (corrected r))
                           (JSON_parse_or_throw parse_error_message))
                        (\<lambda>message. Thrown (''Failed to parse JSON: '' @ message)))
                     (\<lambda>parsedJson.
                        let formatted =
                              (if autoFormat opts then formatJsonStructure opts parsedJson
                               else parsedJson)
                        in Returned
                             \<lparr>entry_id = newId, fileName = fileName', originalJson = text,
                              correctedJson = corrected r,
                              formattedJson = stringify_pretty formatted,
                              entry_error = error r,
                              entry_fields =
                                extractFieldsFromJson (preserveArrays opts) formatted [] 0 3,
                              status = (if error r \<noteq> None then Warning else Processed),
                              timestamp = now\<rparr>)))
             (\<lambda>errorMessage. Returned
                \<lparr>entry_id = newId, fileName = fileName', originalJson = text,
                 correctedJson = Str text, formattedJson = text,
                 entry_error = Some errorMessage, entry_fields = [], status = Error,
                 timestamp = now\<rparr>))
          (\<lambda>entry. Returned (Some entry)))"

section \<open>The merge\<close>

text \<open>
  A record of a dataset is a JavaScript object; it is modelled by its own enumerable
  properties, those \<^verbatim>\<open>Object.keys\<close> lists. The properties of an array are its elements
  under their indices.
\<close>

fun own_properties :: "json \<Rightarrow> (string \<times> json) list option" where
  "own_properties (JObj kvs) = Some kvs"
| "own_properties (JArr items) =
     Some (map (\<lambda>(index, item). (show_nat index, item)) (enumerate 0 items))"
| "own_properties v = None"

text \<open>
  The record made of one parsed element (lines 514--520 and 525--531): the flattened
  element, or the element itself, then the two assignments \<^verbatim>\<open>record._source = ...\<close> and
  \<^verbatim>\<open>record._timestamp = ...\<close>. The file is a module, hence strict code: assigning a
  property to a number, a string or a boolean throws a \<^verbatim>\<open>TypeError\<close>, as assigning one
  to \<^verbatim>\<open>null\<close> does. \<open>None\<close> is that exception.
\<close>

definition make_record ::
  "options \<Rightarrow> (json \<Rightarrow> string) \<Rightarrow> jsonEntry \<Rightarrow> json \<Rightarrow> (string \<times> json) list option" where
  "make_record opts stringify entry item =
     map_option
       (\<lambda>record. obj_set (obj_set record ''_source'' (JStr (fileName entry)))
                   ''_timestamp'' (JStr (timestamp entry)))
       (if flattenNested opts then Some (flattenObject opts stringify item [] [] 0)
        else own_properties item)"

text \<open>
  The loop \<^verbatim>\<open>parsedJson.forEach(item => ...)\<close> (lines 513--522): the records pushed so
  far, and whether an element threw, which ends the loop.
\<close>

fun push_records ::
  "options \<Rightarrow> (json \<Rightarrow> string) \<Rightarrow> jsonEntry \<Rightarrow> json list \<Rightarrow> (string \<times> json) list list
     \<Rightarrow> (string \<times> json) list list \<times> bool" where
  "push_records opts stringify entry [] records = (records, False)"
| "push_records opts stringify entry (item # items) records =
     (case make_record opts stringify entry item of
        None \<Rightarrow> (records, True)
      | Some record \<Rightarrow> push_records opts stringify entry items (records @ [record]))"

text \<open>
  The body of the loop over the entries (lines 506--537). The state is the array
  \<^verbatim>\<open>records\<close> and the log: the identifiers of the entries \<^verbatim>\<open>console.error\<close> reported.
\<close>

definition merge_entry ::
  "options \<Rightarrow> (json \<Rightarrow> string) \<Rightarrow> jsonEntry
     \<Rightarrow> (string \<times> json) list list \<times> string list \<Rightarrow> (string \<times> json) list list \<times> string list" where
  "merge_entry opts stringify entry state =
     (case state of (records, errors) \<Rightarrow>
        (case JSON_parse (formattedJson entry) of
           None \<Rightarrow> (records, errors @ [entry_id entry])
         | Some (JArr items) \<Rightarrow>
             (case push_records opts stringify entry items records of
                (records', thrown) \<Rightarrow>
                  (records', if thrown then errors @ [entry_id entry] else errors))
         | Some parsedJson \<Rightarrow>
             (case make_record opts stringify entry parsedJson of
                None \<Rightarrow> (records, errors @ [entry_id entry])
              | Some record \<Rightarrow> (records @ [record], errors))))"

definition merge_records ::
  "options \<Rightarrow> (json \<Rightarrow> string) \<Rightarrow> jsonEntry list \<Rightarrow> (string \<times> json) list list \<times> string list" where
  "merge_records opts stringify entriesToMerge =
     fold (merge_entry opts stringify) entriesToMerge ([], [])"

text \<open>The schema inference (lines 540--578).\<close>

fun typeof :: "json \<Rightarrow> string" where
  "typeof JNull = ''object''"
| "typeof (JBool b) = ''boolean''"
| "typeof (JNum n) = ''number''"
| "typeof (JStr s) = ''string''"
| "typeof (JArr items) = ''object''"
| "typeof (JObj kvs) = ''object''"

fun is_array :: "json \<Rightarrow> bool" where
  "is_array (JArr items) = True"
| "is_array v = False"

text \<open>The tag added to \<^verbatim>\<open>types\<close> for a value (lines 555--561).\<close>

definition type_tag :: "json \<Rightarrow> string" where
  "type_tag v = (if v = JNull then ''null'' else if is_array v then ''array'' else typeof v)"

text \<open>
  The set \<^verbatim>\<open>types\<close> of a key (lines 549--563): the tags of the values the records own
  under the key, in the order of their first occurrence. The test \<^verbatim>\<open>key in record\<close> and
  the read \<^verbatim>\<open>record[key]\<close> of the code also see what a record does not own but
  inherits or hides from enumeration (the functions of \<^verbatim>\<open>Object.prototype\<close> under names
  such as \<^verbatim>\<open>toString\<close>, the \<^verbatim>\<open>length\<close> of an array), so for a key that some record does
  not own the code can observe tags beyond those listed here; it never observes fewer.
\<close>

definition observed_types :: "(string \<times> json) list list \<Rightarrow> string \<Rightarrow> string list" where
  "observed_types records key =
     fold (\<lambda>record types.
             case map_of record key of
               None \<Rightarrow> types
             | Some v \<Rightarrow> set_add types (type_tag v))
          records []"

definition all_keys :: "(string \<times> json) list list \<Rightarrow> string list" where
  "all_keys records =
     fold (\<lambda>record allKeys. fold (\<lambda>key s. set_add s key) (map fst record) allKeys) records []"

text \<open>
  The type tag \<^verbatim>\<open>schema[key]\<close> receives for the set \<^verbatim>\<open>types\<close> observed for the key
  (lines 565--576).
\<close>

definition schema_type :: "string list \<Rightarrow> string" where
  "schema_type types =
     (if length types = 0 then ''unknown''
      else if length types = 1 then hd types
      else if ''string'' \<in> set types then ''string''
      else if ''number'' \<in> set types then ''number''
      else ''mixed'')"

definition infer_schema :: "(string \<times> json) list list \<Rightarrow> (string \<times> string) list" where
  "infer_schema records =
     fold (\<lambda>key schema. obj_set schema key (schema_type (observed_types records key)))
          (all_keys records) []"

text \<open>
  The datasets (the interface \<^verbatim>\<open>MergedDataset\<close>, lines 20--27); \<^verbatim>\<open>id\<close>, \<^verbatim>\<open>fields\<close> and
  \<^verbatim>\<open>timestamp\<close> are named \<open>dataset_id\<close>, \<open>dataset_fields\<close> and \<open>dataset_timestamp\<close>.
\<close>

record mergedDataset =
  dataset_id :: string
  name :: string
  records :: "(string \<times> json) list list"
  dataset_fields :: "string list"
  schema :: "(string \<times> string) list"
  dataset_timestamp :: string

text \<open>
  \<^verbatim>\<open>mergeSelectedEntries()\<close> (lines 480--607). The state it reads is passed in: the
  options, the set \<^verbatim>\<open>selectedEntries\<close> of identifiers and the list \<^verbatim>\<open>processedEntries\<close>;
  \<open>newId\<close> and \<open>now\<close> are the identifier and the time stamp of the new dataset. The
  result is the message given to \<^verbatim>\<open>setError\<close>, or the dataset with the log. What can
  throw (\<^verbatim>\<open>JSON.parse\<close>, the assignments to a record) stands inside the \<^verbatim>\<open>try\<close> of the
  loop, so the outer \<^verbatim>\<open>catch\<close> (lines 596--600) is never entered.
\<close>

definition mergeSelectedEntries ::
  "options \<Rightarrow> (json \<Rightarrow> string) \<Rightarrow> string \<Rightarrow> string \<Rightarrow> string list \<Rightarrow> jsonEntry list
     \<Rightarrow> string + mergedDataset \<times> string list" where
  "mergeSelectedEntries opts stringify newId now selectedEntries processedEntries =
     (if selectedEntries = [] then Inl ''Please select entries to merge''
      else
        let entriesToMerge =
              filter (\<lambda>entry. entry_id entry \<in> set selectedEntries \<and> status entry \<noteq> Error)
                processedEntries
        in if entriesToMerge = [] then Inl ''No valid entries selected for merging''
           else
             let allFields =
                   fold (\<lambda>entry s. fold (\<lambda>field s. set_add s field) (entry_fields entry) s)
                     entriesToMerge [];
                 merged = merge_records opts stringify entriesToMerge;
                 schema' =
                   (if detectSchemas opts \<and> fst merged \<noteq> [] then infer_schema (fst merged)
                    else [])
             in Inr (\<lparr>dataset_id = newId,
                      name = ''Dataset from '' @ show_nat (length entriesToMerge) @ '' files'',
                      records = fst merged, dataset_fields = allFields, schema = schema',
                      dataset_timestamp = now\<rparr>,
                     snd merged))"

section \<open>Notions the properties are stated with\<close>

text \<open>
  A value is well formed when no object has two properties of the same name (a
  JavaScript object never has).
\<close>

fun wf_json :: "json \<Rightarrow> bool" where
  "wf_json (JArr items) = list_all wf_json items"
| "wf_json (JObj kvs) = (distinct (map fst kvs) \<and> list_all (\<lambda>kv. wf_json (snd kv)) kvs)"
| "wf_json JNull = True"
| "wf_json (JBool b) = True"
| "wf_json (JNum n) = True"
| "wf_json (JStr s) = True"

text \<open>No property name anywhere in the value contains a dot.\<close>

fun dot_free :: "json \<Rightarrow> bool" where
  "dot_free (JArr items) = list_all dot_free items"
| "dot_free (JObj kvs) =
     list_all (\<lambda>kv. CHR ''.'' \<notin> set (fst kv) \<and> dot_free (snd kv)) kvs"
| "dot_free JNull = True"
| "dot_free (JBool b) = True"
| "dot_free (JNum n) = True"
| "dot_free (JStr s) = True"

text \<open>The same for what the parser holds: its frames and its result.\<close>

fun wf_frame :: "frame \<Rightarrow> bool" where
  "wf_frame (ArrayFrame items) = list_all wf_json items"
| "wf_frame (ObjectFrame kvs) = wf_json (JObj kvs)"
| "wf_frame (KeyFrame kvs key) = wf_json (JObj kvs)"

fun wf_state :: "parser_state \<Rightarrow> bool" where
  "wf_state (Done v) = wf_json v"
| "wf_state ps = True"

text \<open>A record carries the two keys the merge injects.\<close>

definition has_metadata :: "(string \<times> json) list \<Rightarrow> bool" where
  "has_metadata record = (''_source'' \<in> fst ` set record \<and> ''_timestamp'' \<in> fst ` set record)"

text \<open>
  The field paths reachable within \<open>n\<close> hops from a value: a hop descends from an
  object to one of its properties, which extends the path by the key and a dot, or from
  an array to one of its elements, which leaves the path as it is. A path is written
  without its final dot.
\<close>

fun paths_within :: "nat \<Rightarrow> json \<Rightarrow> string \<Rightarrow> string list" where
  "paths_within 0 v prefix = [stripDot prefix]"
| "paths_within (Suc n) (JObj kvs) prefix =
     stripDot prefix # concat (map (\<lambda>(key, x). paths_within n x (prefix @ key @ ''.'')) kvs)"
| "paths_within (Suc n) (JArr items) prefix =
     stripDot prefix # concat (map (\<lambda>x. paths_within n x prefix) items)"
| "paths_within (Suc n) v prefix = [stripDot prefix]"

section \<open>Auxiliary facts\<close>

lemma trimValue_object: "is_object v \<Longrightarrow> trimValue opts v = v"
  by (cases v) (simp_all add: trimValue_def)

lemma is_object_trimValue: "is_object (trimValue opts v) = is_object v"
  by (cases v) (simp_all add: trimValue_def)

lemma trimValue_idem: "trimValue opts (trimValue opts v) = trimValue opts v"
proof (cases v)
  case (JStr s)
  show ?thesis
  proof (cases "trimLongValues opts \<and> int (length s) > maxValueLength opts")
    case True
    then have "min (length s) (nat (maxValueLength opts)) = nat (maxValueLength opts)"
      by linarith
    with True show ?thesis
      by (simp add: JStr trimValue_def)
  next
    case False
    then show ?thesis by (auto simp: JStr trimValue_def)
  qed
qed (simp_all add: trimValue_def)

lemma is_object_formatJsonStructure: "is_object (formatJsonStructure opts v) = is_object v"
  by (cases v) simp_all

text \<open>
  What defining and assigning a property do to the keys of an object, to the value
  found under a key, and to the other properties.
\<close>

lemma keys_obj_update: "map fst (obj_update kvs k v) = map fst kvs"
  by (induction kvs) auto

lemma map_of_obj_update_at:
  "map_of (obj_update kvs k v) x
     = (if x = k \<and> map_of kvs k \<noteq> None then Some v else map_of kvs x)"
  by (induction kvs) auto

lemma map_of_obj_update:
  "k \<in> fst ` set kvs \<Longrightarrow> map_of (obj_update kvs k v) = (map_of kvs)(k \<mapsto> v)"
  by (simp add: fun_eq_iff map_of_obj_update_at map_of_eq_None_iff)

lemma map_of_append_new:
  assumes "k \<notin> fst ` set kvs"
  shows "[k \<mapsto> v] ++ map_of kvs = (map_of kvs)(k \<mapsto> v)"
proof -
  have "map_of kvs k = None" using assms by (simp add: map_of_eq_None_iff)
  then show ?thesis by (auto simp: fun_eq_iff map_add_def split: option.splits)
qed

lemma obj_update_same: "map_of kvs k = Some v \<Longrightarrow> obj_update kvs k v = kvs"
  by (induction kvs) (auto split: if_splits)

lemma set_obj_update: "set (obj_update kvs k v) \<subseteq> insert (k, v) (set kvs)"
  by (induction kvs) (auto split: if_splits)

lemma set_insert_index: "set (insert_index n k v kvs) = insert (k, v) (set kvs)"
  by (induction kvs) (auto split: option.splits if_splits)

lemma map_of_insert_index:
  "k \<notin> fst ` set kvs \<Longrightarrow> map_of (insert_index n k v kvs) = (map_of kvs)(k \<mapsto> v)"
  by (induction kvs) (auto simp: fun_eq_iff split: option.splits)

lemma distinct_insert_index:
  "k \<notin> fst ` set kvs \<Longrightarrow> distinct (map fst kvs)
     \<Longrightarrow> distinct (map fst (insert_index n k v kvs))"
  by (induction kvs) (auto simp: set_insert_index split: option.splits)

lemma keys_obj_define: "fst ` set (obj_define kvs k v) = insert k (fst ` set kvs)"
proof (cases "k \<in> fst ` set kvs")
  case True
  have "fst ` set (obj_update kvs k v) = fst ` set kvs"
    using keys_obj_update [of kvs k v] by (metis set_map)
  with True show ?thesis by (auto simp: obj_define_def)
next
  case False
  then show ?thesis
    by (auto simp: obj_define_def set_insert_index split: option.splits)
qed

lemma distinct_obj_define:
  "distinct (map fst kvs) \<Longrightarrow> distinct (map fst (obj_define kvs k v))"
  by (auto simp: obj_define_def keys_obj_update distinct_insert_index split: option.splits)

lemma map_of_obj_define: "map_of (obj_define kvs k v) = (map_of kvs)(k \<mapsto> v)"
proof (cases "k \<in> fst ` set kvs")
  case True
  then show ?thesis by (simp add: obj_define_def map_of_obj_update)
next
  case False
  then show ?thesis
    by (simp add: obj_define_def map_of_insert_index map_of_append_new split: option.splits)
qed

lemma obj_define_same: "map_of kvs k = Some v \<Longrightarrow> obj_define kvs k v = kvs"
proof -
  assume a: "map_of kvs k = Some v"
  then have "k \<in> fst ` set kvs" by (metis map_of_eq_None_iff option.distinct(1))
  with a show ?thesis by (simp add: obj_define_def obj_update_same)
qed

lemma set_obj_define: "set (obj_define kvs k v) \<subseteq> insert (k, v) (set kvs)"
  using set_obj_update [of kvs k v]
  by (auto simp: obj_define_def set_insert_index split: option.splits)

lemma keys_obj_set:
  "fst ` set (obj_set kvs k v)
     = (if k = ''__proto__'' \<and> k \<notin> fst ` set kvs then fst ` set kvs
        else insert k (fst ` set kvs))"
  using keys_obj_define [of kvs k v] by (auto simp: obj_set_def)

lemma distinct_obj_set: "distinct (map fst kvs) \<Longrightarrow> distinct (map fst (obj_set kvs k v))"
  by (simp add: obj_set_def distinct_obj_define)

lemma map_of_obj_set:
  "k \<noteq> ''__proto__'' \<Longrightarrow> map_of (obj_set kvs k v) = (map_of kvs)(k \<mapsto> v)"
  by (simp add: obj_set_def map_of_obj_define)

lemma set_obj_set: "set (obj_set kvs k v) \<subseteq> insert (k, v) (set kvs)"
  using set_obj_define [of kvs k v] by (auto simp: obj_set_def)

lemma obj_set_same: "map_of kvs k = Some v \<Longrightarrow> obj_set kvs k v = kvs"
  by (simp add: obj_set_def obj_define_same)

lemma obj_set_twice: "obj_set (obj_set acc k v) k v = obj_set acc k v"
proof (cases "k = ''__proto__'' \<and> k \<notin> fst ` set acc")
  case True
  then show ?thesis by (auto simp: obj_set_def)
next
  case False
  then have "obj_set acc k v = obj_define acc k v" by (auto simp: obj_set_def)
  then have "map_of (obj_set acc k v) k = Some v" by (simp add: map_of_obj_define)
  then show ?thesis by (rule obj_set_same)
qed

lemma proto_obj_set:
  "''__proto__'' \<notin> fst ` set acc \<Longrightarrow> ''__proto__'' \<notin> fst ` set (obj_set acc k v)"
  by (auto simp: keys_obj_set split: if_splits)

lemma keys_fold_obj_set:
  "''__proto__'' \<notin> fst ` set acc
     \<Longrightarrow> fst ` set (fold (\<lambda>k acc. obj_set acc k (g k)) ks acc)
         = fst ` set acc \<union> (set ks - {''__proto__''})"
proof (induction ks arbitrary: acc)
  case Nil
  then show ?case by simp
next
  case (Cons k ks)
  from Cons.IH [OF proto_obj_set [OF Cons.prems]] Cons.prems show ?case
    by (auto simp: keys_obj_set split: if_splits)
qed

lemma distinct_fold_obj_set:
  "distinct (map fst acc) \<Longrightarrow> distinct (map fst (fold (\<lambda>k acc. obj_set acc k (g k)) ks acc))"
  by (induction ks arbitrary: acc) (simp_all add: distinct_obj_set)

lemma map_of_fold_obj_set:
  "''__proto__'' \<notin> fst ` set acc
     \<Longrightarrow> map_of (fold (\<lambda>k acc. obj_set acc k (g k)) ks acc) k
         = (if k \<in> set ks \<and> k \<noteq> ''__proto__'' then Some (g k) else map_of acc k)"
proof (induction ks arbitrary: acc)
  case Nil
  then show ?case by simp
next
  case (Cons a ks)
  show ?case
  proof (cases "a = ''__proto__''")
    case True
    with Cons.prems have "obj_set acc a (g a) = acc" by (simp add: obj_set_def)
    with Cons.IH [OF Cons.prems] True show ?thesis by auto
  next
    case False
    from Cons.IH [OF proto_obj_set [OF Cons.prems], of a] False show ?thesis
      by (auto simp: map_of_obj_set)
  qed
qed

lemma fold_obj_set_proto:
  "''__proto__'' \<notin> fst ` set acc
     \<Longrightarrow> fold (\<lambda>k acc. obj_set acc k (g k)) ks acc
         = fold (\<lambda>k acc. obj_set acc k (g k)) (filter (\<lambda>k. k \<noteq> ''__proto__'') ks) acc"
proof (induction ks arbitrary: acc)
  case Nil
  then show ?case by simp
next
  case (Cons a ks)
  show ?case
  proof (cases "a = ''__proto__''")
    case True
    with Cons.prems have "obj_set acc a (g a) = acc" by (simp add: obj_set_def)
    with Cons.IH [OF Cons.prems] True show ?thesis by simp
  next
    case False
    from Cons.IH [OF proto_obj_set [OF Cons.prems], of a] False show ?thesis by simp
  qed
qed

lemma fold_obj_set_remdups_adj:
  "fold (\<lambda>k acc. obj_set acc k (g k)) ks acc
     = fold (\<lambda>k acc. obj_set acc k (g k)) (remdups_adj ks) acc"
proof (induction ks arbitrary: acc rule: remdups_adj.induct)
  case (3 x y xs)
  show ?case
  proof (cases "x = y")
    case True
    with "3.IH"(1) [of acc] show ?thesis by (simp add: obj_set_twice)
  next
    case False
    with "3.IH"(2) [of "obj_set acc x (g x)"] show ?thesis by simp
  qed
qed simp_all

lemma distinct_remdups_adj_sorted: "sorted xs \<Longrightarrow> distinct (remdups_adj xs)"
  by (induction xs rule: remdups_adj.induct) auto

lemma set_fold_set_add: "set (fold (\<lambda>k s. set_add s k) ks ds) = set ds \<union> set ks"
  by (induction ks arbitrary: ds) (auto simp: set_add_def)

lemma distinct_fold_set_add: "distinct ds \<Longrightarrow> distinct (fold (\<lambda>k s. set_add s k) ks ds)"
  by (induction ks arbitrary: ds) (auto simp: set_add_def)


section \<open>The structure formatter is idempotent\<close>

text \<open>
  Claim C8. For every JSON value and every setting of \<^verbatim>\<open>trimLongValues\<close> and
  \<^verbatim>\<open>maxValueLength\<close>, formatting a formatted value changes nothing:
  \<^verbatim>\<open>formatJsonStructure(formatJsonStructure(v))\<close> equals \<^verbatim>\<open>formatJsonStructure(v)\<close>, also
  when strings are cut to their first \<^verbatim>\<open>maxValueLength\<close> code units plus three dots.
\<close>

theorem formatJsonStructure_idempotent:
  "formatJsonStructure opts (formatJsonStructure opts v) = formatJsonStructure opts v"
proof (induction opts v rule: formatJsonStructure.induct)
  case (1 opts items)
  then show ?case by simp
next
  case (2 opts kvs)
  define ks where "ks = sort (map fst kvs)"
  define fv where "fv = (\<lambda>v. if is_object (trimValue opts v)
                          then formatJsonStructure opts v else trimValue opts v)"
  define g where "g = (\<lambda>k. fv (the (map_of kvs k)))"
  define U where "U = filter (\<lambda>k. k \<noteq> ''__proto__'') (remdups_adj ks)"
  define R where "R = fold (\<lambda>k acc. obj_set acc k (g k)) ks []"
  have in_ks: "map_of kvs k \<noteq> None" if "k \<in> set ks" for k
    using that by (simp add: ks_def map_of_eq_None_iff)
  have fv_idem: "fv (fv v) = fv v"
    if "k \<in> set ks" and "map_of kvs k = Some v" for k v
  proof (cases "is_object (trimValue opts v)")
    case True
    with that 2 have "formatJsonStructure opts (formatJsonStructure opts v)
        = formatJsonStructure opts v"
      by (simp add: ks_def)
    with True show ?thesis
      by (simp add: fv_def is_object_trimValue is_object_formatJsonStructure)
  next
    case False
    then show ?thesis
      by (simp add: fv_def is_object_trimValue trimValue_idem)
  qed
  have first: "fold (\<lambda>key orderedObj. case map_of kvs key of None \<Rightarrow> orderedObj
           | Some v \<Rightarrow> if is_object (trimValue opts v)
                      then obj_set orderedObj key (formatJsonStructure opts v)
                      else obj_set orderedObj key (trimValue opts v)) ks []
       = R"
    unfolding R_def
  proof (rule fold_cong)
    fix k assume "k \<in> set ks"
    then obtain v where "map_of kvs k = Some v" using in_ks by blast
    then show "(\<lambda>orderedObj. case map_of kvs k of None \<Rightarrow> orderedObj
           | Some v \<Rightarrow> if is_object (trimValue opts v)
                      then obj_set orderedObj k (formatJsonStructure opts v)
                      else obj_set orderedObj k (trimValue opts v))
        = (\<lambda>acc. obj_set acc k (g k))"
      by (auto simp: g_def fv_def)
  qed simp_all
  have "R = fold (\<lambda>k acc. obj_set acc k (g k)) (remdups_adj ks) []"
    unfolding R_def by (rule fold_obj_set_remdups_adj)
  also have "\<dots> = fold (\<lambda>k acc. obj_set acc k (g k)) U []"
    unfolding U_def by (rule fold_obj_set_proto) simp
  finally have RU: "fold (\<lambda>k acc. obj_set acc k (g k)) U [] = R" by simp
  have setU: "set U = set ks - {''__proto__''}"
    by (auto simp: U_def)
  have "sorted ks" by (simp add: ks_def)
  then have sortedU: "sorted U" and distU: "distinct U"
    by (simp_all add: U_def sorted_remdups_adj sorted_wrt_filter distinct_remdups_adj_sorted)
  have keysR: "fst ` set R = set U"
    using keys_fold_obj_set [of "[]" g ks] by (simp add: R_def setU)
  have distR: "distinct (map fst R)"
    unfolding R_def by (rule distinct_fold_obj_set) simp
  have sortU: "sort (map fst R) = U"
  proof (rule sorted_distinct_set_unique)
    show "set (sort (map fst R)) = set U" using keysR by simp
  qed (simp_all add: distR sortedU distU)
  have lookR: "map_of R k = Some (g k)" if "k \<in> set U" for k
    using that map_of_fold_obj_set [of "[]" g ks k] by (simp add: R_def setU)
  have second: "fold (\<lambda>key orderedObj. case map_of R key of None \<Rightarrow> orderedObj
           | Some v \<Rightarrow> if is_object (trimValue opts v)
                      then obj_set orderedObj key (formatJsonStructure opts v)
                      else obj_set orderedObj key (trimValue opts v)) U []
       = fold (\<lambda>k acc. obj_set acc k (g k)) U []"
  proof (rule fold_cong)
    fix k assume kU: "k \<in> set U"
    then have k: "k \<in> set ks" using setU by simp
    then obtain v where v: "map_of kvs k = Some v" using in_ks by blast
    have "fv (g k) = g k"
      using fv_idem [OF k v] by (simp add: g_def v)
    then show "(\<lambda>orderedObj. case map_of R k of None \<Rightarrow> orderedObj
           | Some v \<Rightarrow> if is_object (trimValue opts v)
                      then obj_set orderedObj k (formatJsonStructure opts v)
                      else obj_set orderedObj k (trimValue opts v))
        = (\<lambda>acc. obj_set acc k (g k))"
      by (cases "is_object (trimValue opts (g k))") (simp_all add: lookR [OF kU] fv_def)
  qed simp_all
  from first second RU sortU show ?case
    by (simp add: ks_def [symmetric])
qed simp_all

section \<open>The field extractor: depth and duplicates\<close>

lemma fold_append_concat: "fold (\<lambda>x acc. acc @ f x) xs a = a @ concat (map f xs)"
  by (induction xs arbitrary: a) simp_all

lemma extract_JObj:
  "extractFieldsFromJson pa (JObj kvs) prefix depth m =
     (if int depth > m then [stripDot prefix]
      else concat (map (\<lambda>(key, v). if is_object v
              then extractFieldsFromJson pa v (prefix @ key @ ''.'') (depth + 1) m
              else [prefix @ key]) kvs))"
proof -
  have "(\<lambda>(key, v) fields. if is_object v
            then fields @ extractFieldsFromJson pa v (prefix @ key @ ''.'') (depth + 1) m
            else fields @ [prefix @ key])
      = (\<lambda>kv acc. acc @ (case kv of (key, v) \<Rightarrow> if is_object v
              then extractFieldsFromJson pa v (prefix @ key @ ''.'') (depth + 1) m
              else [prefix @ key]))"
    by (auto simp: fun_eq_iff)
  then show ?thesis
    by (simp add: fold_append_concat)
qed

lemma set_set_add: "set (set_add s x) = insert x (set s)"
  by (auto simp: set_add_def)

lemma distinct_set_add: "distinct s \<Longrightarrow> distinct (set_add s x)"
  by (simp add: set_add_def)

lemma set_array_fold:
  "set (fold (\<lambda>item arrayFields. if c item then fold (\<lambda>field s. set_add s field) (f item) arrayFields
                 else set_add arrayFields q) xs acc)
     = set acc \<union> (\<Union>x\<in>set xs. if c x then set (f x) else {q})"
  by (induction xs arbitrary: acc) (auto simp: set_fold_set_add set_set_add)

lemma distinct_array_fold:
  "distinct acc \<Longrightarrow>
   distinct (fold (\<lambda>item arrayFields. if c item then fold (\<lambda>field s. set_add s field) (f item) arrayFields
                 else set_add arrayFields q) xs acc)"
  by (induction xs arbitrary: acc) (simp_all add: distinct_fold_set_add distinct_set_add)

lemma stripDot_in_paths_within: "stripDot prefix \<in> set (paths_within n v prefix)"
  by (induction n v prefix rule: paths_within.induct) simp_all

lemma stripDot_snoc: "stripDot (p @ ''.'') = p"
  by (simp add: stripDot_def)

lemma extract_paths_within:
  "set (extractFieldsFromJson pa v prefix depth m)
     \<subseteq> set (paths_within (nat (m + 1 - int depth)) v prefix)"
proof (induction pa v prefix depth m rule: extractFieldsFromJson.induct)
  case (1 pa prefix depth m)
  then show ?case by (auto simp: stripDot_in_paths_within)
next
  case (2 pa items prefix depth m)
  show ?case
  proof (cases "int depth > m \<or> pa \<or> items = []")
    case True
    then show ?thesis by (auto simp: stripDot_in_paths_within)
  next
    case False
    define n where "n = nat (m - int depth)"
    have n: "nat (m + 1 - int depth) = Suc n" "nat (m + 1 - int (depth + 1)) = n"
      using False by (auto simp: n_def)
    have "\<And>x. x \<in> set (take 3 items) \<Longrightarrow> is_object x \<Longrightarrow>
            set (extractFieldsFromJson pa x prefix (depth + 1) m) \<subseteq> set (paths_within n x prefix)"
      using 2 False n by auto
    moreover have "\<And>x. x \<in> set (take 3 items) \<Longrightarrow> x \<in> set items"
      by (rule in_set_takeD)
    ultimately show ?thesis
      using False n by (auto simp: set_array_fold stripDot_in_paths_within split: if_splits)
  qed
next
  case (3 pa kvs prefix depth m)
  show ?case
  proof (cases "int depth > m")
    case True
    then show ?thesis by (simp add: stripDot_in_paths_within)
  next
    case False
    define n where "n = nat (m - int depth)"
    have n: "nat (m + 1 - int depth) = Suc n" "nat (m + 1 - int (depth + 1)) = n"
      using False by (auto simp: n_def)
    have A: "set (extractFieldsFromJson pa x (prefix @ key @ ''.'') (depth + 1) m)
              \<subseteq> set (paths_within n x (prefix @ key @ ''.''))"
      if "(key, x) \<in> set kvs" "is_object x" for key x
      using 3 False n that by auto
    have B: "prefix @ key \<in> set (paths_within n x (prefix @ key @ ''.''))" for key x
      using stripDot_in_paths_within [of "(prefix @ key) @ ''.''" n x]
      by (simp only: stripDot_snoc) simp
    have "p \<in> set (concat (map (\<lambda>(key, x). paths_within n x (prefix @ key @ ''.'')) kvs))"
      if "p \<in> set (concat (map (\<lambda>(key, v). if is_object v
              then extractFieldsFromJson pa v (prefix @ key @ ''.'') (depth + 1) m
              else [prefix @ key]) kvs))" for p
    proof -
      from that obtain key x where kx: "(key, x) \<in> set kvs"
        and p: "p \<in> set (if is_object x
              then extractFieldsFromJson pa x (prefix @ key @ ''.'') (depth + 1) m
              else [prefix @ key])"
        by auto
      have "p \<in> set (paths_within n x (prefix @ key @ ''.''))"
      proof (cases "is_object x")
        case True
        with p A [OF kx] show ?thesis by auto
      next
        case False
        with p B show ?thesis by simp
      qed
      with kx show ?thesis by force
    qed
    then have "set (concat (map (\<lambda>(key, v). if is_object v
              then extractFieldsFromJson pa v (prefix @ key @ ''.'') (depth + 1) m
              else [prefix @ key]) kvs))
        \<subseteq> set (concat (map (\<lambda>(key, x). paths_within n x (prefix @ key @ ''.'')) kvs))"
      by blast
    moreover have "extractFieldsFromJson pa (JObj kvs) prefix depth m
        = concat (map (\<lambda>(key, v). if is_object v
              then extractFieldsFromJson pa v (prefix @ key @ ''.'') (depth + 1) m
              else [prefix @ key]) kvs)"
      using False by (simp only: extract_JObj if_False)
    moreover have "paths_within (nat (m + 1 - int depth)) (JObj kvs) prefix
        = stripDot prefix # concat (map (\<lambda>(key, x). paths_within n x (prefix @ key @ ''.'')) kvs)"
      by (simp only: n(1) paths_within.simps)
    ultimately show ?thesis
      by (simp only: set_simps) blast
  qed
qed (simp_all add: stripDot_in_paths_within)


lemma extract_prefix:
  "p \<in> set (extractFieldsFromJson pa v prefix depth m) \<Longrightarrow>
     p = stripDot prefix \<or> (\<exists>r. p = prefix @ r)"
proof (induction pa v prefix depth m arbitrary: p rule: extractFieldsFromJson.induct)
  case (1 pa prefix depth m)
  then show ?case by (simp split: if_splits)
next
  case (2 pa items prefix depth m)
  show ?case
  proof (cases "int depth > m \<or> pa \<or> items = []")
    case True
    with "2.prems" show ?thesis by (auto split: if_splits)
  next
    case False
    with "2.prems" have "p \<in> (\<Union>x\<in>set (take 3 items).
          if is_object x then set (extractFieldsFromJson pa x prefix (depth + 1) m)
          else {stripDot prefix})"
      by (simp add: set_array_fold)
    then obtain x where x: "x \<in> set (take 3 items)"
      and p: "p \<in> (if is_object x then set (extractFieldsFromJson pa x prefix (depth + 1) m)
                   else {stripDot prefix})"
      by blast
    show ?thesis
    proof (cases "is_object x")
      case True
      with p have "p \<in> set (extractFieldsFromJson pa x prefix (depth + 1) m)" by simp
      with "2.IH" [OF _ _ x True] False show ?thesis by auto
    next
      case False
      with p show ?thesis by simp
    qed
  qed
next
  case (3 pa kvs prefix depth m)
  show ?case
  proof (cases "int depth > m")
    case True
    with "3.prems" show ?thesis by simp
  next
    case False
    with "3.prems" have "p \<in> set (concat (map (\<lambda>(key, v). if is_object v
              then extractFieldsFromJson pa v (prefix @ key @ ''.'') (depth + 1) m
              else [prefix @ key]) kvs))"
      by (simp only: extract_JObj if_False)
    then obtain key x where kx: "(key, x) \<in> set kvs"
      and p: "p \<in> set (if is_object x
              then extractFieldsFromJson pa x (prefix @ key @ ''.'') (depth + 1) m
              else [prefix @ key])"
      by auto
    show ?thesis
    proof (cases "is_object x")
      case True
      with p have "p \<in> set (extractFieldsFromJson pa x (prefix @ key @ ''.'') (depth + 1) m)"
        by simp
      from "3.IH" [OF False kx _ True this]
      have "p = stripDot ((prefix @ key) @ ''.'') \<or> (\<exists>r. p = prefix @ (key @ ''.'' @ r))"
        by simp
      then have "p = prefix @ key \<or> (\<exists>r. p = prefix @ (key @ ''.'' @ r))"
        by (simp only: stripDot_snoc)
      then show ?thesis by blast
    next
      case False
      with p show ?thesis by simp
    qed
  qed
qed simp_all


lemma member_shape:
  assumes "p \<in> set (if is_object x
              then extractFieldsFromJson pa x (prefix @ key @ ''.'') depth m
              else [prefix @ key])"
  shows "p = prefix @ key \<or> (\<exists>r. p = prefix @ key @ ''.'' @ r)"
proof (cases "is_object x")
  case True
  with assms have "p \<in> set (extractFieldsFromJson pa x ((prefix @ key) @ ''.'') depth m)"
    by simp
  then have "p = stripDot ((prefix @ key) @ ''.'') \<or> (\<exists>r. p = ((prefix @ key) @ ''.'') @ r)"
    by (rule extract_prefix)
  then show ?thesis
    using stripDot_snoc [of "prefix @ key"] by simp
next
  case False
  with assms show ?thesis by simp
qed

lemma key_of_path:
  assumes "CHR ''.'' \<notin> set key" and "p = prefix @ key \<or> (\<exists>r. p = prefix @ key @ ''.'' @ r)"
  shows "takeWhile (\<lambda>c. c \<noteq> CHR ''.'') (drop (length prefix) p) = key"
  using assms by (auto simp: takeWhile_append)

lemma distinct_concat_map_keys:
  assumes "distinct (map fst kvs)"
    and "\<And>kv. kv \<in> set kvs \<Longrightarrow> distinct (f kv)"
    and "\<And>kv kv'. kv \<in> set kvs \<Longrightarrow> kv' \<in> set kvs \<Longrightarrow> fst kv \<noteq> fst kv'
            \<Longrightarrow> set (f kv) \<inter> set (f kv') = {}"
  shows "distinct (concat (map f kvs))"
  using assms
proof (induction kvs)
  case Nil
  show ?case by simp
next
  case (Cons kv kvs)
  have "set (f kv) \<inter> set (f kv') = {}" if "kv' \<in> set kvs" for kv'
  proof -
    from that Cons.prems(1) have "fst kv \<noteq> fst kv'" by force
    with that show ?thesis by (simp add: Cons.prems(3))
  qed
  moreover have "distinct (concat (map f kvs))"
    using Cons by simp
  ultimately show ?case
    using Cons.prems(2) by auto
qed

lemma wf_json_member: "wf_json (JObj kvs) \<Longrightarrow> (key, x) \<in> set kvs \<Longrightarrow> wf_json x"
  by (auto simp: list_all_iff)

lemma dot_free_member:
  "dot_free (JObj kvs) \<Longrightarrow> (key, x) \<in> set kvs \<Longrightarrow> CHR ''.'' \<notin> set key \<and> dot_free x"
  by (auto simp: list_all_iff)

lemma extract_distinct:
  "wf_json v \<Longrightarrow> dot_free v \<Longrightarrow> distinct (extractFieldsFromJson pa v prefix depth m)"
proof (induction pa v prefix depth m rule: extractFieldsFromJson.induct)
  case (2 pa items prefix depth m)
  show ?case by (simp add: distinct_array_fold)
next
  case (3 pa kvs prefix depth m)
  show ?case
  proof (cases "int depth > m")
    case True
    then show ?thesis by simp
  next
    case False
    let ?f = "\<lambda>(key, v). if is_object v
              then extractFieldsFromJson pa v (prefix @ key @ ''.'') (depth + 1) m
              else [prefix @ key]"
    have "distinct (concat (map ?f kvs))"
    proof (rule distinct_concat_map_keys)
      show "distinct (map fst kvs)" using "3.prems"(1) by simp
    next
      fix kv assume kv: "kv \<in> set kvs"
      obtain key x where [simp]: "kv = (key, x)" by (cases kv)
      show "distinct (?f kv)"
      proof (cases "is_object x")
        case True
        have "(key, x) \<in> set kvs" using kv by simp
        then have "distinct (extractFieldsFromJson pa x (prefix @ key @ ''.'') (depth + 1) m)"
          using "3.IH" [OF False _ _ True] wf_json_member [OF "3.prems"(1)]
            dot_free_member [OF "3.prems"(2)] by blast
        with True show ?thesis by simp
      next
        case False
        then show ?thesis by simp
      qed
    next
      fix kv kv' assume kv: "kv \<in> set kvs" "kv' \<in> set kvs" "fst kv \<noteq> fst kv'"
      obtain key x where [simp]: "kv = (key, x)" by (cases kv)
      obtain key' x' where [simp]: "kv' = (key', x')" by (cases kv')
      have dots: "CHR ''.'' \<notin> set key" "CHR ''.'' \<notin> set key'"
        using kv dot_free_member [OF "3.prems"(2)] by auto
      show "set (?f kv) \<inter> set (?f kv') = {}"
      proof (rule ccontr)
        assume "set (?f kv) \<inter> set (?f kv') \<noteq> {}"
        then obtain p where "p \<in> set (?f kv)" "p \<in> set (?f kv')" by blast
        then have "p = prefix @ key \<or> (\<exists>r. p = prefix @ key @ ''.'' @ r)"
          and "p = prefix @ key' \<or> (\<exists>r. p = prefix @ key' @ ''.'' @ r)"
          using member_shape [of p x pa prefix key "depth + 1" m]
            member_shape [of p x' pa prefix key' "depth + 1" m] by simp_all
        then have "key = key'"
          using key_of_path [OF dots(1)] key_of_path [OF dots(2)] by metis
        with kv(3) show False by simp
      qed
    qed
    with False show ?thesis by (simp only: extract_JObj if_False)
  qed
qed simp_all

text \<open>
  Claim C9 as stated fails twice. With the ceiling 3 the extractor returns the path
  \<^verbatim>\<open>a.c.d.e\<close>, four hops from the root: the guard \<^verbatim>\<open>depth > maxDepth\<close> stops one level
  below the ceiling. And the object branch pushes its paths without the \<^verbatim>\<open>Set\<close> the
  array branch uses: the document \<^verbatim>\<open>{"a.b": 1, "a": {"b": 2, ...}}\<close> yields \<^verbatim>\<open>a.b\<close> twice.
\<close>

theorem extractFieldsFromJson_counterexample:
  "\<not> distinct (extractFieldsFromJson True
        (JObj [(''a.b'', JNum 1),
               (''a'', JObj [(''b'', JNum 2),
                             (''c'', JObj [(''d'', JObj [(''e'', JNum 3)])])])])
        [] 0 3)
   \<and> \<not> set (extractFieldsFromJson True
        (JObj [(''a.b'', JNum 1),
               (''a'', JObj [(''b'', JNum 2),
                             (''c'', JObj [(''d'', JObj [(''e'', JNum 3)])])])])
        [] 0 3)
      \<subseteq> set (paths_within 3
        (JObj [(''a.b'', JNum 1),
               (''a'', JObj [(''b'', JNum 2),
                             (''c'', JObj [(''d'', JObj [(''e'', JNum 3)])])])])
        [])"
  by (simp add: stripDot_def numeral_3_eq_3)

text \<open>
  Claim C9, amended. For every JSON value \<open>v\<close> and every bound \<open>maxDepth\<close>,
  \<^verbatim>\<open>extractFieldsFromJson(v, '', 0, maxDepth)\<close> returns only field paths reachable within
  \<open>maxDepth + 1\<close> hops from the root; and when no property name of \<open>v\<close> contains a
  dot, the returned list has no duplicates.
\<close>

theorem extractFieldsFromJson_paths_distinct:
  "set (extractFieldsFromJson pa v [] 0 maxDepth') \<subseteq> set (paths_within (nat (maxDepth' + 1)) v [])
   \<and> (wf_json v \<and> dot_free v \<longrightarrow> distinct (extractFieldsFromJson pa v [] 0 maxDepth'))"
  using extract_paths_within [of pa v "[]" 0 maxDepth'] extract_distinct [of v pa "[]" 0 maxDepth']
  by simp

theorem extractFieldsFromJson_paths_distinct_witness:
  "wf_json (JObj [(''a'', JObj [(''b'', JNum 1)]), (''c'', JArr [JObj [(''d'', JNull)], JStr ''x''])])
   \<and> dot_free (JObj [(''a'', JObj [(''b'', JNum 1)]), (''c'', JArr [JObj [(''d'', JNull)], JStr ''x''])])
   \<and> extractFieldsFromJson False
        (JObj [(''a'', JObj [(''b'', JNum 1)]), (''c'', JArr [JObj [(''d'', JNull)], JStr ''x''])])
        [] 0 3 = [''a.b'', ''c.d'', ''c'']
   \<and> set [''a.b'', ''c.d'', ''c'']
      \<subseteq> set (paths_within (nat (3 + 1))
        (JObj [(''a'', JObj [(''b'', JNum 1)]), (''c'', JArr [JObj [(''d'', JNull)], JStr ''x''])])
        [])
   \<and> distinct [''a.b'', ''c.d'', ''c'']"
  using extractFieldsFromJson_paths_distinct
    [of False "JObj [(''a'', JObj [(''b'', JNum 1)]),
                     (''c'', JArr [JObj [(''d'', JNull)], JStr ''x''])]" 3]
  by (simp add: set_add_def stripDot_def)

section \<open>Parsed and formatted values are well formed\<close>

text \<open>
  No object \<^verbatim>\<open>JSON.parse\<close> or the formatter builds has two properties of the same name:
  a property defined or assigned a second time keeps its place.
\<close>

lemma wf_json_obj_define:
  assumes "wf_json (JObj kvs)" and "wf_json v"
  shows "wf_json (JObj (obj_define kvs key v))"
proof -
  have "wf_json (snd kv)" if "kv \<in> set (obj_define kvs key v)" for kv
    using that set_obj_define [of kvs key v] assms
    by (auto simp: list_all_iff)
  then show ?thesis
    using assms(1) by (simp add: distinct_obj_define list_all_iff)
qed

lemma wf_json_obj_set:
  assumes "wf_json (JObj kvs)" and "wf_json v"
  shows "wf_json (JObj (obj_set kvs key v))"
  using assms wf_json_obj_define [of kvs v key] by (simp add: obj_set_def)

lemma wf_json_fold_obj_set:
  assumes "wf_json (JObj acc)" and "\<And>k. k \<in> set ks \<Longrightarrow> wf_json (g k)"
  shows "wf_json (JObj (fold (\<lambda>k acc. obj_set acc k (g k)) ks acc))"
  using assms
proof (induction ks arbitrary: acc)
  case Nil
  then show ?case by simp
next
  case (Cons k ks)
  have "wf_json (JObj (obj_set acc k (g k)))"
    using Cons.prems by (intro wf_json_obj_set) simp_all
  then show ?case
    using Cons.IH [of "obj_set acc k (g k)"] Cons.prems(2) by simp
qed

lemma wf_json_trimValue: "wf_json v \<Longrightarrow> wf_json (trimValue opts v)"
  by (cases v) (simp_all add: trimValue_def)

lemma trimValue_scalar: "\<not> is_object (trimValue opts v) \<Longrightarrow> wf_json (trimValue opts v)"
  by (cases v) (simp_all add: trimValue_def)

lemma wf_json_formatJsonStructure: "wf_json (formatJsonStructure opts v)"
proof (induction opts v rule: formatJsonStructure.induct)
  case (1 opts items)
  then show ?case by (simp add: list_all_iff)
next
  case (2 opts kvs)
  define g where "g = (\<lambda>k. case map_of kvs k of
       None \<Rightarrow> JNull
     | Some v \<Rightarrow> if is_object (trimValue opts v) then formatJsonStructure opts v
                 else trimValue opts v)"
  have in_ks: "map_of kvs k \<noteq> None" if "k \<in> set (sort (map fst kvs))" for k
    using that by (simp add: map_of_eq_None_iff)
  have "fold (\<lambda>key orderedObj. case map_of kvs key of None \<Rightarrow> orderedObj
           | Some v \<Rightarrow> if is_object (trimValue opts v)
                      then obj_set orderedObj key (formatJsonStructure opts v)
                      else obj_set orderedObj key (trimValue opts v)) (sort (map fst kvs)) []
       = fold (\<lambda>k acc. obj_set acc k (g k)) (sort (map fst kvs)) []"
  proof (rule fold_cong)
    fix k assume "k \<in> set (sort (map fst kvs))"
    then obtain v where "map_of kvs k = Some v" using in_ks by blast
    then show "(\<lambda>orderedObj. case map_of kvs k of None \<Rightarrow> orderedObj
           | Some v \<Rightarrow> if is_object (trimValue opts v)
                      then obj_set orderedObj k (formatJsonStructure opts v)
                      else obj_set orderedObj k (trimValue opts v))
        = (\<lambda>acc. obj_set acc k (g k))"
      by (auto simp: g_def)
  qed simp_all
  moreover have "wf_json (g k)" if "k \<in> set (sort (map fst kvs))" for k
  proof -
    from that obtain v where v: "map_of kvs k = Some v" using in_ks by blast
    show ?thesis
    proof (cases "is_object (trimValue opts v)")
      case True
      with "2.IH" [OF that v] v show ?thesis by (simp add: g_def)
    next
      case False
      with v show ?thesis by (simp add: g_def trimValue_scalar)
    qed
  qed
  ultimately show ?case
    using wf_json_fold_obj_set [of "[]" "sort (map fst kvs)" g] by simp
qed simp_all

lemma put_value_wf:
  "put_value v st = Some (ps', st') \<Longrightarrow> wf_json v \<Longrightarrow> list_all wf_frame st
     \<Longrightarrow> wf_state ps' \<and> list_all wf_frame st'"
  using wf_json_obj_define
  by (induction v st rule: put_value.induct) auto

lemma begin_value_wf:
  "begin_value t st = Some (ps', st') \<Longrightarrow> list_all wf_frame st
     \<Longrightarrow> wf_state ps' \<and> list_all wf_frame st'"
  by (cases t) (auto dest: put_value_wf)

lemma close_array_wf:
  "close_array st = Some (ps', st') \<Longrightarrow> list_all wf_frame st
     \<Longrightarrow> wf_state ps' \<and> list_all wf_frame st'"
  by (induction st rule: close_array.induct) (auto dest: put_value_wf)

lemma close_object_wf:
  "close_object st = Some (ps', st') \<Longrightarrow> list_all wf_frame st
     \<Longrightarrow> wf_state ps' \<and> list_all wf_frame st'"
  by (induction st rule: close_object.induct) (auto dest: put_value_wf)

lemma open_key_wf:
  "open_key t st = Some (ps', st') \<Longrightarrow> list_all wf_frame st
     \<Longrightarrow> wf_state ps' \<and> list_all wf_frame st'"
  by (induction t st rule: open_key.induct) auto

lemma after_comma_wf:
  "after_comma st = Some (ps', st') \<Longrightarrow> list_all wf_frame st
     \<Longrightarrow> wf_state ps' \<and> list_all wf_frame st'"
  by (induction st rule: after_comma.induct) auto

lemma parse_step_wf:
  "parse_step ps st t = Some (ps', st') \<Longrightarrow> list_all wf_frame st
     \<Longrightarrow> wf_state ps' \<and> list_all wf_frame st'"
  by (cases ps)
     (auto split: if_splits
           dest: begin_value_wf close_array_wf close_object_wf open_key_wf after_comma_wf)

lemma parse_run_wf:
  "parse_run ps st ts = Some v \<Longrightarrow> wf_state ps \<Longrightarrow> list_all wf_frame st \<Longrightarrow> wf_json v"
proof (induction ts arbitrary: ps st)
  case Nil
  then show ?case by (cases ps) simp_all
next
  case (Cons t ts)
  from Cons.prems(1) obtain ps' st' where step: "parse_step ps st t = Some (ps', st')"
    and run: "parse_run ps' st' ts = Some v"
    by (auto split: option.splits)
  from parse_step_wf [OF step Cons.prems(3)] Cons.IH [OF run] show ?case by simp
qed

lemma wf_json_JSON_parse: "JSON_parse text = Some v \<Longrightarrow> wf_json v"
  by (auto simp: JSON_parse_def split: option.splits dest: parse_run_wf)

text \<open>
  Two objects as the platform builds them. A parsed object lists its array indices
  first, by value, whatever the order of the text; \<^verbatim>\<open>01\<close> and \<^verbatim>\<open>4294967295\<close> are no array
  indices. A parsed
  object owns the key \<^verbatim>\<open>__proto__\<close>, the object the formatter assigns to does not.
\<close>

lemma JSON_parse_orders_indices:
  \<open>JSON_parse ''{"b":1,"10":2,"9":3,"01":4,"9":5,"4294967295":6,"4294967294":7}''
     = Some (JObj [(''9'', JNum 5), (''10'', JNum 2), (''4294967294'', JNum 7), (''b'', JNum 1),
                   (''01'', JNum 4), (''4294967295'', JNum 6)])\<close>
  by code_simp

lemma formatJsonStructure_proto:
  \<open>JSON_parse ''{"b":1,"__proto__":2,"a":3}''
     = Some (JObj [(''b'', JNum 1), (''__proto__'', JNum 2), (''a'', JNum 3)])
   \<and> formatJsonStructure defaultOptions
         (JObj [(''b'', JNum 1), (''__proto__'', JNum 2), (''a'', JNum 3)])
       = JObj [(''a'', JNum 3), (''b'', JNum 1)]\<close>
  by code_simp

section \<open>The syntax repairer: valid text, the scenario, evaluated text\<close>

text \<open>
  Claim C5. For every string that already parses as JSON, the repairer returns it
  unchanged, character for character, with no error; the message that reports the
  aggressive repair is absent.
\<close>

theorem correctJsonSyntax_valid_unchanged:
  assumes "JSON_parse t = Some v"
  shows "correctJsonSyntax parse_error_message js_eval t
           = Returned \<lparr>corrected = Str t, error = None\<rparr>"
  using assms by (simp add: correctJsonSyntax_def JSON_parse_or_throw_def)

text \<open>The claim at a document with an array, a fraction and \<^verbatim>\<open>null\<close>.\<close>

theorem correctJsonSyntax_valid_unchanged_witness:
  \<open>JSON_parse ''{"a": [1, 2.5, "x"], "b": null}''
     = Some (JObj [(''a'', JArr [JNum 1, JNum (5 / 2), JStr ''x'']), (''b'', JNull)])
   \<and> (\<forall>parse_error_message js_eval.
        correctJsonSyntax parse_error_message js_eval ''{"a": [1, 2.5, "x"], "b": null}''
          = Returned \<lparr>corrected = Str ''{"a": [1, 2.5, "x"], "b": null}'', error = None\<rparr>)\<close>
proof -
  have parsed: \<open>JSON_parse ''{"a": [1, 2.5, "x"], "b": null}''
     = Some (JObj [(''a'', JArr [JNum 1, JNum (5 / 2), JStr ''x'']), (''b'', JNull)])\<close>
    by code_simp
  show ?thesis
    using correctJsonSyntax_valid_unchanged [OF parsed] parsed by blast
qed

lemma bob_rewrites: \<open>regexFixes ''{name: 'Bob', age: 30,}'' = ''{"name": "Bob", "age": 30}''\<close>
  by code_simp

lemma bob_invalid: \<open>JSON_parse ''{name: 'Bob', age: 30,}'' = None\<close>
  by code_simp

lemma bob_parses:
  \<open>JSON_parse ''{"name": "Bob", "age": 30}''
     = Some (JObj [(''name'', JStr ''Bob''), (''age'', JNum 30)])\<close>
  by code_simp

text \<open>
  Claim C6. The input \<^verbatim>\<open>{name: 'Bob', age: 30,}\<close> does not parse; quoting the keys,
  replacing the single quotes and removing the trailing comma yield exactly
  \<^verbatim>\<open>{"name": "Bob", "age": 30}\<close>, the other rewrites change nothing, the result parses, and
  the repairer returns it with no error: the aggressive stage is not reached.
\<close>

theorem correctJsonSyntax_bob:
  \<open>JSON_parse ''{name: 'Bob', age: 30,}'' = None
   \<and> dropCommaBefore (CHR ''}'') (doubleQuotes (quoteKeys ''{name: 'Bob', age: 30,}''))
       = ''{"name": "Bob", "age": 30}''
   \<and> regexFixes ''{name: 'Bob', age: 30,}'' = ''{"name": "Bob", "age": 30}''
   \<and> JSON_parse ''{"name": "Bob", "age": 30}''
       = Some (JObj [(''name'', JStr ''Bob''), (''age'', JNum 30)])
   \<and> correctJsonSyntax parse_error_message js_eval ''{name: 'Bob', age: 30,}''
       = Returned \<lparr>corrected = Str ''{"name": "Bob", "age": 30}'', error = None\<rparr>\<close>
proof -
  have \<open>dropCommaBefore (CHR ''}'') (doubleQuotes (quoteKeys ''{name: 'Bob', age: 30,}''))
       = ''{"name": "Bob", "age": 30}''\<close>
    by code_simp
  moreover have \<open>correctJsonSyntax parse_error_message js_eval ''{name: 'Bob', age: 30,}''
       = Returned \<lparr>corrected = Str ''{"name": "Bob", "age": 30}'', error = None\<rparr>\<close>
    by (simp add: correctJsonSyntax_def JSON_parse_or_throw_def bob_invalid bob_rewrites
        bob_parses)
  ultimately show ?thesis
    using bob_invalid bob_rewrites bob_parses by simp
qed

text \<open>
  What the repairer does once the direct parse and the parse of the rewritten text have
  failed depends on the evaluation of the text alone. It never throws.
\<close>

lemma correctJsonSyntax_not_thrown: "correctJsonSyntax parse_error_message js_eval t \<noteq> Thrown e"
  by (cases "JSON_parse t"; cases "JSON_parse (regexFixes t)"; cases "js_eval t";
      cases "snd (js_eval t)")
     (simp_all add: correctJsonSyntax_def JSON_parse_or_throw_def)

lemma correctJsonSyntax_evaluation_throws:
  assumes "JSON_parse t = None" and "JSON_parse (regexFixes t) = None"
    and "js_eval t = (jsonStr', Thrown e)"
  shows "correctJsonSyntax parse_error_message js_eval t
           = Returned \<lparr>corrected = jsonStr',
                error = Some (''Could not fix JSON. Original error: ''
                              @ parse_error_message t)\<rparr>"
  using assms by (simp add: correctJsonSyntax_def JSON_parse_or_throw_def)

lemma correctJsonSyntax_evaluation_returns:
  assumes "JSON_parse t = None" and "JSON_parse (regexFixes t) = None"
    and "js_eval t = (jsonStr', Returned obj)"
  shows "correctJsonSyntax parse_error_message js_eval t
           = Returned \<lparr>corrected = obj,
                error = Some ''Used aggressive correction. Verify the result!''\<rparr>"
  using assms by (simp add: correctJsonSyntax_def JSON_parse_or_throw_def)

lemma correctJsonSyntax_evaluation_no_return:
  assumes "JSON_parse t = None" and "JSON_parse (regexFixes t) = None"
    and "js_eval t = (jsonStr', NoReturn)"
  shows "correctJsonSyntax parse_error_message js_eval t = NoReturn"
  using assms by (simp add: correctJsonSyntax_def JSON_parse_or_throw_def)

text \<open>
  The text \<^verbatim>\<open>{a:1,]\<close>, which no stage repairs and whose evaluation is a syntax error that
  assigns nothing: the original text comes back with the message of the first failure.
\<close>

lemma correctJsonSyntax_unrepaired:
  \<open>correctJsonSyntax (\<lambda>text. ''Unexpected token a in JSON at position 1'')
     (\<lambda>text. (Str text, Thrown ''Unexpected token ]'')) ''{a:1,]''
   = Returned \<lparr>corrected = Str ''{a:1,]'',
        error = Some ''Could not fix JSON. Original error: Unexpected token a in JSON at position 1''\<rparr>\<close>
proof -
  have h1: \<open>JSON_parse ''{a:1,]'' = None\<close> by code_simp
  have h2: \<open>JSON_parse (regexFixes ''{a:1,]'') = None\<close> by code_simp
  show ?thesis
    using correctJsonSyntax_evaluation_throws
      [OF h1 h2, of "\<lambda>text. (Str text, Thrown ''Unexpected token ]'')" "Str ''{a:1,]''"
         "''Unexpected token ]''" "\<lambda>text. ''Unexpected token a in JSON at position 1''"]
    by simp
qed

text \<open>
  Claim C7. The claim is that the repairer always returns a result record and that, when
  the direct parse, the parse of the rewritten text and the permissive evaluator all
  fail, the record holds the original text unchanged, with the message
  \<^verbatim>\<open>Could not fix JSON. Original error: \<close> followed by the reason of the first failure.
  The code does not keep it, because its third stage runs the text as program code
  (line 161, under the comment ``not secure for production''). The text
  \<^verbatim>\<open>(jsonStr = "hacked", null.x)\<close> is no JSON, the rewrites leave it no JSON, and its
  evaluation assigns the variable \<^verbatim>\<open>jsonStr\<close> before it throws a \<^verbatim>\<open>TypeError\<close>: the
  record then holds \<^verbatim>\<open>hacked\<close>, not the original text. The text
  \<^verbatim>\<open>(function(){for(;;);})()\<close> is no JSON either, and its evaluation does not terminate:
  no record is returned.
\<close>

theorem correctJsonSyntax_evaluated_text:
  \<open>JSON_parse ''(jsonStr = "hacked", null.x)'' = None
   \<and> JSON_parse (regexFixes ''(jsonStr = "hacked", null.x)'') = None
   \<and> correctJsonSyntax parse_error_message
        (\<lambda>text. (Str ''hacked'', Thrown ''Cannot read properties of null''))
        ''(jsonStr = "hacked", null.x)''
       = Returned \<lparr>corrected = Str ''hacked'',
            error = Some (''Could not fix JSON. Original error: ''
                          @ parse_error_message ''(jsonStr = "hacked", null.x)'')\<rparr>
   \<and> Str ''hacked'' \<noteq> Str ''(jsonStr = "hacked", null.x)''
   \<and> JSON_parse ''(function(){for(;;);})()'' = None
   \<and> JSON_parse (regexFixes ''(function(){for(;;);})()'') = None
   \<and> correctJsonSyntax parse_error_message (\<lambda>text. (Str text, NoReturn))
        ''(function(){for(;;);})()''
       = NoReturn\<close>
proof -
  have a1: \<open>JSON_parse ''(jsonStr = "hacked", null.x)'' = None\<close> by code_simp
  have a2: \<open>JSON_parse (regexFixes ''(jsonStr = "hacked", null.x)'') = None\<close> by code_simp
  have b1: \<open>JSON_parse ''(function(){for(;;);})()'' = None\<close> by code_simp
  have b2: \<open>JSON_parse (regexFixes ''(function(){for(;;);})()'') = None\<close> by code_simp
  show ?thesis
    by (simp add: correctJsonSyntax_def JSON_parse_or_throw_def a1 a2 b1 b2)
qed

section \<open>The pipeline and the option maxDepth\<close>

text \<open>
  The entry \<^verbatim>\<open>processJsonText\<close> stores does not depend on the option \<^verbatim>\<open>maxDepth\<close> at
  all: neither the formatter nor the call of the extractor reads it.
\<close>

lemma trimValue_maxDepth: "trimValue (opts\<lparr>maxDepth := d\<rparr>) v = trimValue opts v"
  by (cases v) (simp_all add: trimValue_def)

lemma formatJsonStructure_maxDepth:
  "formatJsonStructure (opts\<lparr>maxDepth := d\<rparr>) v = formatJsonStructure opts v"
proof (induction opts v rule: formatJsonStructure.induct)
  case (2 opts kvs)
  have "fold (\<lambda>key orderedObj. case map_of kvs key of None \<Rightarrow> orderedObj
           | Some v \<Rightarrow> if is_object (trimValue (opts\<lparr>maxDepth := d\<rparr>) v)
                      then obj_set orderedObj key (formatJsonStructure (opts\<lparr>maxDepth := d\<rparr>) v)
                      else obj_set orderedObj key (trimValue (opts\<lparr>maxDepth := d\<rparr>) v))
          (sort (map fst kvs)) []
       = fold (\<lambda>key orderedObj. case map_of kvs key of None \<Rightarrow> orderedObj
           | Some v \<Rightarrow> if is_object (trimValue opts v)
                      then obj_set orderedObj key (formatJsonStructure opts v)
                      else obj_set orderedObj key (trimValue opts v))
          (sort (map fst kvs)) []"
  proof (rule fold_cong)
    fix k assume k: "k \<in> set (sort (map fst kvs))"
    show "(\<lambda>orderedObj. case map_of kvs k of None \<Rightarrow> orderedObj
           | Some v \<Rightarrow> if is_object (trimValue (opts\<lparr>maxDepth := d\<rparr>) v)
                      then obj_set orderedObj k (formatJsonStructure (opts\<lparr>maxDepth := d\<rparr>) v)
                      else obj_set orderedObj k (trimValue (opts\<lparr>maxDepth := d\<rparr>) v))
      = (\<lambda>orderedObj. case map_of kvs k of None \<Rightarrow> orderedObj
           | Some v \<Rightarrow> if is_object (trimValue opts v)
                      then obj_set orderedObj k (formatJsonStructure opts v)
                      else obj_set orderedObj k (trimValue opts v))"
    proof (cases "map_of kvs k")
      case None
      then show ?thesis by simp
    next
      case (Some v)
      then show ?thesis
        using "2.IH" [OF k Some] by (auto simp: trimValue_maxDepth)
    qed
  qed simp_all
  then show ?case by simp
qed simp_all

lemma processJsonText_maxDepth:
  "processJsonText (opts\<lparr>maxDepth := d\<rparr>) parse_error_message js_eval stringify_pretty
     text file newId now
   = processJsonText opts parse_error_message js_eval stringify_pretty text file newId now"
  unfolding processJsonText_def formatJsonStructure_maxDepth by simp

text \<open>
  Claim C3 says that the field extractor of the pipeline stops at the ceiling
  \<^verbatim>\<open>processingOptions.maxDepth\<close>, as the flattener does. The code does not: with the
  option set to 1, the document \<^verbatim>\<open>{"a":{"b":{"c":1}}}\<close> is stored with the field
  \<^verbatim>\<open>a.b.c\<close>, because \<^verbatim>\<open>processJsonText\<close> calls the extractor without a ceiling and the
  default 3 applies; the extractor with the ceiling 1 returns \<^verbatim>\<open>a.b\<close>, and the flattener,
  which reads the option, stores the key \<^verbatim>\<open>a.b\<close>.
\<close>

theorem processJsonText_ignores_maxDepth:
  \<open>processJsonText (defaultOptions\<lparr>maxDepth := 1\<rparr>) parse_error_message js_eval
       stringify_pretty ''{"a":{"b":{"c":1}}}'' ''deep.json'' ''e1'' ''t1''
     = Returned (Some (stored_entry ''e1'' ''deep.json'' ''{"a":{"b":{"c":1}}}''
          (stringify_pretty (JObj [(''a'', JObj [(''b'', JObj [(''c'', JNum 1)])])]))
          [''a.b.c''] ''t1''))
   \<and> extractFieldsFromJson (preserveArrays (defaultOptions\<lparr>maxDepth := 1\<rparr>))
         (JObj [(''a'', JObj [(''b'', JObj [(''c'', JNum 1)])])]) [] 0
         (maxDepth (defaultOptions\<lparr>maxDepth := 1\<rparr>))
       = [''a.b'']
   \<and> flattenObject (defaultOptions\<lparr>maxDepth := 1\<rparr>) stringify
         (JObj [(''a'', JObj [(''b'', JObj [(''c'', JNum 1)])])]) [] [] 0
       = [(''a.b'', JStr (stringify (JObj [(''c'', JNum 1)])))]\<close>
proof -
  have \<open>processJsonText (defaultOptions\<lparr>maxDepth := 1\<rparr>) parse_error_message js_eval
       stringify_pretty ''{"a":{"b":{"c":1}}}'' ''deep.json'' ''e1'' ''t1''
     = Returned (Some (stored_entry ''e1'' ''deep.json'' ''{"a":{"b":{"c":1}}}''
          (stringify_pretty (JObj [(''a'', JObj [(''b'', JObj [(''c'', JNum 1)])])]))
          [''a.b.c''] ''t1''))\<close>
    apply code_simp
    apply simp
    done
  moreover have \<open>extractFieldsFromJson (preserveArrays (defaultOptions\<lparr>maxDepth := 1\<rparr>))
         (JObj [(''a'', JObj [(''b'', JObj [(''c'', JNum 1)])])]) [] 0
         (maxDepth (defaultOptions\<lparr>maxDepth := 1\<rparr>))
       = [''a.b'']\<close>
    by (simp add: defaultOptions_def stripDot_def)
  moreover have \<open>flattenObject (defaultOptions\<lparr>maxDepth := 1\<rparr>) stringify
         (JObj [(''a'', JObj [(''b'', JObj [(''c'', JNum 1)])])]) [] [] 0
       = [(''a.b'', JStr (stringify (JObj [(''c'', JNum 1)])))]\<close>
    by (simp add: defaultOptions_def obj_set_def obj_define_def array_index_def is_digit_def)
  ultimately show ?thesis by simp
qed

section \<open>The merge: records, fields and schema\<close>

lemma make_record_metadata: "make_record opts stringify entry item = Some record \<Longrightarrow> has_metadata record"
  by (auto simp: make_record_def has_metadata_def keys_obj_set)

lemma push_records_metadata:
  "list_all has_metadata recs \<Longrightarrow>
   list_all has_metadata (fst (push_records opts stringify entry items recs))"
  by (induction items arbitrary: recs)
     (auto split: option.splits dest: make_record_metadata)

lemma merge_entry_metadata:
  assumes "list_all has_metadata (fst state)"
  shows "list_all has_metadata (fst (merge_entry opts stringify entry state))"
proof -
  obtain recs errors where state: "state = (recs, errors)" by (cases state)
  have recs: "list_all has_metadata recs" using assms state by simp
  have single: "list_all has_metadata
      (fst (case make_record opts stringify entry v of
              None \<Rightarrow> (recs, errors @ [entry_id entry])
            | Some record \<Rightarrow> (recs @ [record], errors)))" for v
    using recs by (auto split: option.splits dest: make_record_metadata)
  show ?thesis
  proof (cases "JSON_parse (formattedJson entry)")
    case None
    then show ?thesis using recs by (simp add: merge_entry_def state)
  next
    case (Some parsedJson)
    show ?thesis
    proof (cases parsedJson)
      case (JArr items)
      then show ?thesis
        using push_records_metadata [OF recs, of opts stringify entry items] Some
        by (cases "push_records opts stringify entry items recs")
           (simp add: merge_entry_def state)
    qed (use Some single in \<open>simp_all add: merge_entry_def state\<close>)
  qed
qed

lemma merge_records_metadata:
  "list_all has_metadata (fst (merge_records opts stringify entries))"
proof -
  have "list_all has_metadata (fst state) \<Longrightarrow>
        list_all has_metadata (fst (fold (merge_entry opts stringify) entries state))" for state
    by (induction entries arbitrary: state) (simp_all add: merge_entry_metadata)
  then show ?thesis by (simp add: merge_records_def)
qed

lemma set_fold_fields:
  "set (fold (\<lambda>entry s. fold (\<lambda>field s. set_add s field) (f entry) s) entries acc)
     = set acc \<union> (\<Union>entry\<in>set entries. set (f entry))"
  by (induction entries arbitrary: acc) (auto simp: set_fold_set_add)

lemma set_all_keys: "set (all_keys recs) = (\<Union>record\<in>set recs. fst ` set record)"
  using set_fold_fields [of "map fst" recs "[]"] by (simp add: all_keys_def)

lemma keys_infer_schema:
  "fst ` set (infer_schema recs) = (\<Union>record\<in>set recs. fst ` set record) - {''__proto__''}"
  using keys_fold_obj_set [of "[]" "\<lambda>key. schema_type (observed_types recs key)" "all_keys recs"]
  by (simp add: infer_schema_def set_all_keys)

lemma map_of_infer_schema:
  "map_of (infer_schema recs) key
     = (if key \<in> set (all_keys recs) \<and> key \<noteq> ''__proto__''
        then Some (schema_type (observed_types recs key)) else None)"
  using map_of_fold_obj_set
          [of "[]" "\<lambda>key. schema_type (observed_types recs key)" "all_keys recs" key]
  by (simp add: infer_schema_def)

lemma set_observed_types_fold:
  "set (fold (\<lambda>record types.
             case map_of record key of
               None \<Rightarrow> types
             | Some v \<Rightarrow> set_add types (type_tag v)) recs acc)
     = set acc \<union> (\<Union>record\<in>set recs.
          case map_of record key of None \<Rightarrow> {} | Some v \<Rightarrow> {type_tag v})"
proof (induction recs arbitrary: acc)
  case Nil
  show ?case by simp
next
  case (Cons r recs)
  show ?case
  proof (cases "map_of r key")
    case None
    then show ?thesis by (simp add: Cons.IH)
  next
    case (Some v)
    then show ?thesis by (simp add: Cons.IH set_set_add Un_assoc)
  qed
qed

lemma set_observed_types:
  "set (observed_types recs key)
     = (\<Union>record\<in>set recs. case map_of record key of None \<Rightarrow> {} | Some v \<Rightarrow> {type_tag v})"
  by (simp add: observed_types_def set_observed_types_fold)

lemma type_tag_not_unknown: "type_tag v \<noteq> ''unknown''"
  by (cases v) (simp_all add: type_tag_def)

lemma observed_types_nonempty:
  assumes "record \<in> set recs" and "key \<in> fst ` set record"
  shows "observed_types recs key \<noteq> []"
proof -
  from assms(2) have "key \<in> dom (map_of record)"
    by (simp add: dom_map_of_conv_image_fst)
  then obtain v where "map_of record key = Some v"
    by blast
  with assms(1) have "type_tag v \<in> set (observed_types recs key)"
    unfolding set_observed_types by force
  then show ?thesis by auto
qed

lemma observed_types_tags:
  assumes "t \<in> set (observed_types recs key)"
  shows "\<exists>v. t = type_tag v"
proof -
  from assms obtain r where "r \<in> set recs"
    and "t \<in> (case map_of r key of None \<Rightarrow> {} | Some v \<Rightarrow> {type_tag v})"
    unfolding set_observed_types by blast
  then show ?thesis by (cases "map_of r key") auto
qed

lemma schema_type_cases:
  "schema_type ts = ''unknown'' \<Longrightarrow> ts = [] \<or> hd ts = ''unknown''"
  unfolding schema_type_def
  by (simp split: if_splits)

lemma schema_type_not_unknown:
  assumes "observed_types recs key \<noteq> []"
  shows "schema_type (observed_types recs key) \<noteq> ''unknown''"
proof
  assume "schema_type (observed_types recs key) = ''unknown''"
  then have "hd (observed_types recs key) = ''unknown''"
    using assms schema_type_cases by blast
  moreover have "hd (observed_types recs key) \<in> set (observed_types recs key)"
    using assms by simp
  ultimately obtain v where "type_tag v = ''unknown''"
    using observed_types_tags by metis
  then show False
    using type_tag_not_unknown by blast
qed

lemma merge_result:
  assumes "mergeSelectedEntries opts stringify newId now selectedEntries processedEntries
             = Inr (ds, errs)"
  defines "entriesToMerge \<equiv>
             filter (\<lambda>entry. entry_id entry \<in> set selectedEntries \<and> status entry \<noteq> Error)
               processedEntries"
  shows "dataset_fields ds
           = fold (\<lambda>entry s. fold (\<lambda>field s. set_add s field) (entry_fields entry) s)
               entriesToMerge []"
    and "records ds = fst (merge_records opts stringify entriesToMerge)"
    and "errs = snd (merge_records opts stringify entriesToMerge)"
    and "schema ds = (if detectSchemas opts \<and> records ds \<noteq> [] then infer_schema (records ds)
                      else [])"
  using assms(1) unfolding mergeSelectedEntries_def entriesToMerge_def
  by (auto simp: Let_def split: if_splits)

lemma merge_returns:
  assumes "selectedEntries \<noteq> []"
    and "filter (\<lambda>e. entry_id e \<in> set selectedEntries \<and> status e \<noteq> Error) processedEntries
           \<noteq> []"
  shows "\<exists>ds errs. mergeSelectedEntries opts stringify newId now selectedEntries processedEntries
           = Inr (ds, errs)"
  using assms by (simp add: mergeSelectedEntries_def Let_def)

lemma detectSchemas_default: "detectSchemas defaultOptions"
  by (simp add: defaultOptions_def)

lemma scenario_merge:
  \<open>mergeSelectedEntries defaultOptions stringify newId now [''e1'', ''e2'']
     [stored_entry ''e1'' ''one.json'' ''{"a":1,"b":{"c":2}}''
        ''{\<newline>  "a": 1,\<newline>  "b": {\<newline>    "c": 2\<newline>  }\<newline>}'' [''a'', ''b.c''] ''t1'',
      stored_entry ''e2'' ''two.json'' ''{"a":3,"b":{"c":4}}''
        ''{\<newline>  "a": 3,\<newline>  "b": {\<newline>    "c": 4\<newline>  }\<newline>}'' [''a'', ''b.c''] ''t2'']
   = Inr (\<lparr>dataset_id = newId, name = ''Dataset from 2 files'',
           records =
             [[(''a'', JNum 1), (''b.c'', JNum 2), (''_source'', JStr ''one.json''),
               (''_timestamp'', JStr ''t1'')],
              [(''a'', JNum 3), (''b.c'', JNum 4), (''_source'', JStr ''two.json''),
               (''_timestamp'', JStr ''t2'')]],
           dataset_fields = [''a'', ''b.c''],
           schema =
             [(''a'', ''number''), (''b.c'', ''number''), (''_source'', ''string''),
              (''_timestamp'', ''string'')],
           dataset_timestamp = now\<rparr>, [])\<close>
  by code_simp

lemma scenario_process:
  \<open>processJsonText defaultOptions parse_error_message js_eval stringify_pretty
     ''{"a":1,"b":{"c":2}}'' ''one.json'' ''e1'' ''t1''
   = Returned (Some (stored_entry ''e1'' ''one.json'' ''{"a":1,"b":{"c":2}}''
        (stringify_pretty (JObj [(''a'', JNum 1), (''b'', JObj [(''c'', JNum 2)])]))
        [''a'', ''b.c''] ''t1''))\<close>
  apply code_simp
  apply simp
  done

lemma scenario_process_second:
  \<open>processJsonText defaultOptions parse_error_message js_eval stringify_pretty
     ''{"a":3,"b":{"c":4}}'' ''two.json'' ''e2'' ''t2''
   = Returned (Some (stored_entry ''e2'' ''two.json'' ''{"a":3,"b":{"c":4}}''
        (stringify_pretty (JObj [(''a'', JNum 3), (''b'', JObj [(''c'', JNum 4)])]))
        [''a'', ''b.c''] ''t2''))\<close>
  apply code_simp
  apply simp
  done

lemma list_entry_merge:
  \<open>mergeSelectedEntries defaultOptions stringify newId now [''e1'']
     [stored_entry ''e1'' ''list.json'' ''[{"a":1}]''
        ''[\<newline>  {\<newline>    "a": 1\<newline>  }\<newline>]'' [''''] ''t1'']
   = Inr (\<lparr>dataset_id = newId, name = ''Dataset from 1 files'',
           records = [[(''a'', JNum 1), (''_source'', JStr ''list.json''),
                       (''_timestamp'', JStr ''t1'')]],
           dataset_fields = [''''],
           schema = [(''a'', ''number''), (''_source'', ''string''), (''_timestamp'', ''string'')],
           dataset_timestamp = now\<rparr>, [])\<close>
  by code_simp

lemma list_entry_process:
  \<open>processJsonText defaultOptions parse_error_message js_eval stringify_pretty
     ''[{"a":1}]'' ''list.json'' ''e1'' ''t1''
   = Returned (Some (stored_entry ''e1'' ''list.json'' ''[{"a":1}]''
        (stringify_pretty (JArr [JObj [(''a'', JNum 1)]])) [''''] ''t1''))\<close>
  apply code_simp
  apply simp
  done

text \<open>
  A document with the key \<^verbatim>\<open>__proto__\<close>, processed and merged with \<^verbatim>\<open>autoFormat\<close> and
  \<^verbatim>\<open>flattenNested\<close> switched off, so that the parsed object itself becomes the record.
\<close>

lemma proto_entry_process:
  \<open>processJsonText (defaultOptions\<lparr>autoFormat := False, flattenNested := False\<rparr>)
     parse_error_message js_eval stringify_pretty
     ''{"__proto__":1,"a":2}'' ''proto.json'' ''e1'' ''t1''
   = Returned (Some (stored_entry ''e1'' ''proto.json'' ''{"__proto__":1,"a":2}''
        (stringify_pretty (JObj [(''__proto__'', JNum 1), (''a'', JNum 2)]))
        [''__proto__'', ''a''] ''t1''))\<close>
  apply code_simp
  apply simp
  done

lemma proto_entry_merge:
  \<open>mergeSelectedEntries (defaultOptions\<lparr>autoFormat := False, flattenNested := False\<rparr>)
     stringify newId now [''e1'']
     [stored_entry ''e1'' ''proto.json'' ''{"__proto__":1,"a":2}''
        ''{\<newline>  "__proto__": 1,\<newline>  "a": 2\<newline>}'' [''__proto__'', ''a''] ''t1'']
   = Inr (\<lparr>dataset_id = newId, name = ''Dataset from 1 files'',
           records = [[(''__proto__'', JNum 1), (''a'', JNum 2),
                       (''_source'', JStr ''proto.json''), (''_timestamp'', JStr ''t1'')]],
           dataset_fields = [''__proto__'', ''a''],
           schema = [(''a'', ''number''), (''_source'', ''string''), (''_timestamp'', ''string'')],
           dataset_timestamp = now\<rparr>, [])\<close>
  by code_simp

text \<open>
  Claim C1 as stated fails. The document \<^verbatim>\<open>[{"a":1}]\<close> is stored, under the default
  options, with the single field \<^verbatim>\<open>''\<close> (an array kept whole is one leaf at the empty
  prefix). Merged alone it gives one record with the keys \<^verbatim>\<open>a\<close>, \<^verbatim>\<open>_source\<close> and
  \<^verbatim>\<open>_timestamp\<close>, none of which is in \<^verbatim>\<open>fields\<close>, and \<^verbatim>\<open>fields\<close> holds \<^verbatim>\<open>''\<close>, which
  has no entry in the schema: \<^verbatim>\<open>fields\<close> is built from the entries' own field lists
  (lines 497--501), the schema from the keys of the records (lines 543--546).
\<close>

theorem merge_fields_counterexample:
  \<open>(\<forall>parse_error_message js_eval stringify_pretty.
      processJsonText defaultOptions parse_error_message js_eval stringify_pretty
        ''[{"a":1}]'' ''list.json'' ''e1'' ''t1''
      = Returned (Some (stored_entry ''e1'' ''list.json'' ''[{"a":1}]''
           (stringify_pretty (JArr [JObj [(''a'', JNum 1)]])) [''''] ''t1'')))
   \<and> (\<forall>stringify. \<exists>ds errs.
     mergeSelectedEntries defaultOptions stringify ''d1'' ''now'' [''e1'']
       [stored_entry ''e1'' ''list.json'' ''[{"a":1}]''
          ''[\<newline>  {\<newline>    "a": 1\<newline>  }\<newline>]'' [''''] ''t1'']
       = Inr (ds, errs)
     \<and> detectSchemas defaultOptions
     \<and> records ds = [[(''a'', JNum 1), (''_source'', JStr ''list.json''),
                      (''_timestamp'', JStr ''t1'')]]
     \<and> dataset_fields ds = ['''']
     \<and> schema ds = [(''a'', ''number''), (''_source'', ''string''), (''_timestamp'', ''string'')]
     \<and> \<not> (\<forall>r\<in>set (records ds). fst ` set r \<subseteq> set (dataset_fields ds))
     \<and> \<not> set (dataset_fields ds) \<subseteq> fst ` set (schema ds))\<close>
  by (simp add: list_entry_merge list_entry_process detectSchemas_default)

text \<open>
  Claim C1, amended. For every dataset the merge produces, \<^verbatim>\<open>fields\<close> is the union of
  the field lists of the merged entries (the selected entries whose status is not
  \<^verbatim>\<open>error\<close>); every record carries the keys \<^verbatim>\<open>_source\<close> and \<^verbatim>\<open>_timestamp\<close>; and, when
  \<^verbatim>\<open>detectSchemas\<close> is enabled, the keys of the schema are exactly the keys that appear in
  the records, the two injected keys included, apart from the key \<^verbatim>\<open>__proto__\<close>: a record
  can own a property of that name (a parsed object kept as it is), but the assignment
  \<^verbatim>\<open>schema[key] = ...\<close> (lines 567--575) defines no property under it.
\<close>

theorem merge_fields_and_schema:
  assumes "mergeSelectedEntries opts stringify newId now selectedEntries processedEntries
             = Inr (ds, errs)"
  shows "set (dataset_fields ds)
           = (\<Union>entry\<in>{entry \<in> set processedEntries.
                         entry_id entry \<in> set selectedEntries \<and> status entry \<noteq> Error}.
                set (entry_fields entry))
         \<and> (\<forall>r\<in>set (records ds). {''_source'', ''_timestamp''} \<subseteq> fst ` set r)
         \<and> (detectSchemas opts \<longrightarrow>
               fst ` set (schema ds)
                 = (\<Union>r\<in>set (records ds). fst ` set r) - {''__proto__''})"
proof (intro conjI impI)
  show "set (dataset_fields ds)
           = (\<Union>entry\<in>{entry \<in> set processedEntries.
                         entry_id entry \<in> set selectedEntries \<and> status entry \<noteq> Error}.
                set (entry_fields entry))"
    by (simp add: merge_result(1) [OF assms] set_fold_fields)
next
  have "list_all has_metadata (records ds)"
    by (simp add: merge_result(2) [OF assms] merge_records_metadata)
  then show "\<forall>r\<in>set (records ds). {''_source'', ''_timestamp''} \<subseteq> fst ` set r"
    by (simp add: list_all_iff has_metadata_def)
next
  assume "detectSchemas opts"
  then show "fst ` set (schema ds)
               = (\<Union>r\<in>set (records ds). fst ` set r) - {''__proto__''}"
    by (cases "records ds = []") (simp_all add: merge_result(4) [OF assms] keys_infer_schema)
qed

text \<open>
  The amended claim at the document \<^verbatim>\<open>{"__proto__":1,"a":2}\<close>, stored and merged with
  \<^verbatim>\<open>autoFormat\<close> and \<^verbatim>\<open>flattenNested\<close> switched off: the record owns the key
  \<^verbatim>\<open>__proto__\<close>, the schema does not.
\<close>

theorem merge_fields_and_schema_witness:
  \<open>\<forall>stringify. \<exists>ds errs.
     mergeSelectedEntries (defaultOptions\<lparr>autoFormat := False, flattenNested := False\<rparr>)
       stringify ''d1'' ''now'' [''e1'']
       [stored_entry ''e1'' ''proto.json'' ''{"__proto__":1,"a":2}''
          ''{\<newline>  "__proto__": 1,\<newline>  "a": 2\<newline>}'' [''__proto__'', ''a''] ''t1'']
       = Inr (ds, errs)
     \<and> records ds = [[(''__proto__'', JNum 1), (''a'', JNum 2),
                      (''_source'', JStr ''proto.json''), (''_timestamp'', JStr ''t1'')]]
     \<and> schema ds = [(''a'', ''number''), (''_source'', ''string''), (''_timestamp'', ''string'')]
     \<and> set (dataset_fields ds) = set [''__proto__'', ''a'']
     \<and> list_all (\<lambda>r. {''_source'', ''_timestamp''} \<subseteq> fst ` set r) (records ds)
     \<and> detectSchemas (defaultOptions\<lparr>autoFormat := False, flattenNested := False\<rparr>)
     \<and> fst ` set (schema ds) = (\<Union>r\<in>set (records ds). fst ` set r) - {''__proto__''}\<close>
proof
  fix stringify
  let ?opts = \<open>defaultOptions\<lparr>autoFormat := False, flattenNested := False\<rparr>\<close>
  let ?entries = \<open>[stored_entry ''e1'' ''proto.json'' ''{"__proto__":1,"a":2}''
          ''{\<newline>  "__proto__": 1,\<newline>  "a": 2\<newline>}'' [''__proto__'', ''a''] ''t1'']\<close>
  obtain ds errs where
    merged: "mergeSelectedEntries ?opts stringify ''d1'' ''now'' [''e1''] ?entries = Inr (ds, errs)"
    and recs: "records ds = [[(''__proto__'', JNum 1), (''a'', JNum 2),
                      (''_source'', JStr ''proto.json''), (''_timestamp'', JStr ''t1'')]]"
    and sch: "schema ds
                = [(''a'', ''number''), (''_source'', ''string''), (''_timestamp'', ''string'')]"
    and "dataset_fields ds = [''__proto__'', ''a'']"
    by (simp add: proto_entry_merge)
  moreover have "detectSchemas ?opts" by (simp add: defaultOptions_def)
  ultimately show "\<exists>ds errs.
     mergeSelectedEntries ?opts stringify ''d1'' ''now'' [''e1''] ?entries = Inr (ds, errs)
     \<and> records ds = [[(''__proto__'', JNum 1), (''a'', JNum 2),
                      (''_source'', JStr ''proto.json''), (''_timestamp'', JStr ''t1'')]]
     \<and> schema ds = [(''a'', ''number''), (''_source'', ''string''), (''_timestamp'', ''string'')]
     \<and> set (dataset_fields ds) = set [''__proto__'', ''a'']
     \<and> list_all (\<lambda>r. {''_source'', ''_timestamp''} \<subseteq> fst ` set r) (records ds)
     \<and> detectSchemas ?opts
     \<and> fst ` set (schema ds) = (\<Union>r\<in>set (records ds). fst ` set r) - {''__proto__''}"
    using merge_fields_and_schema [OF merged] by (auto simp: list_all_iff)
qed

text \<open>
  Claim C2 as stated fails in one point: the \<^verbatim>\<open>fields\<close> of the dataset of the scenario
  hold neither \<^verbatim>\<open>_source\<close> nor \<^verbatim>\<open>_timestamp\<close>.
\<close>

theorem merge_scenario_counterexample:
  \<open>\<forall>stringify. \<exists>ds errs.
     mergeSelectedEntries defaultOptions stringify ''d1'' ''now'' [''e1'', ''e2'']
       [stored_entry ''e1'' ''one.json'' ''{"a":1,"b":{"c":2}}''
          ''{\<newline>  "a": 1,\<newline>  "b": {\<newline>    "c": 2\<newline>  }\<newline>}'' [''a'', ''b.c''] ''t1'',
        stored_entry ''e2'' ''two.json'' ''{"a":3,"b":{"c":4}}''
          ''{\<newline>  "a": 3,\<newline>  "b": {\<newline>    "c": 4\<newline>  }\<newline>}'' [''a'', ''b.c''] ''t2'']
       = Inr (ds, errs)
     \<and> ''_source'' \<notin> set (dataset_fields ds) \<and> ''_timestamp'' \<notin> set (dataset_fields ds)
     \<and> set (dataset_fields ds) \<noteq> {''a'', ''b.c'', ''_source'', ''_timestamp''}\<close>
proof
  fix stringify
  have "set [''a'', ''b.c''] \<noteq> {''a'', ''b.c'', ''_source'', ''_timestamp''}"
  proof
    assume "set [''a'', ''b.c''] = {''a'', ''b.c'', ''_source'', ''_timestamp''}"
    then have "''_source'' \<in> set [''a'', ''b.c'']" by blast
    then show False by simp
  qed
  then show \<open>\<exists>ds errs.
     mergeSelectedEntries defaultOptions stringify ''d1'' ''now'' [''e1'', ''e2'']
       [stored_entry ''e1'' ''one.json'' ''{"a":1,"b":{"c":2}}''
          ''{\<newline>  "a": 1,\<newline>  "b": {\<newline>    "c": 2\<newline>  }\<newline>}'' [''a'', ''b.c''] ''t1'',
        stored_entry ''e2'' ''two.json'' ''{"a":3,"b":{"c":4}}''
          ''{\<newline>  "a": 3,\<newline>  "b": {\<newline>    "c": 4\<newline>  }\<newline>}'' [''a'', ''b.c''] ''t2'']
       = Inr (ds, errs)
     \<and> ''_source'' \<notin> set (dataset_fields ds) \<and> ''_timestamp'' \<notin> set (dataset_fields ds)
     \<and> set (dataset_fields ds) \<noteq> {''a'', ''b.c'', ''_source'', ''_timestamp''}\<close>
    by (simp add: scenario_merge)
qed

text \<open>
  Claim C2, amended. The documents \<^verbatim>\<open>{"a":1,"b":{"c":2}}\<close> and \<^verbatim>\<open>{"a":3,"b":{"c":4}}\<close> are
  stored with the fields \<^verbatim>\<open>a\<close> and \<^verbatim>\<open>b.c\<close>; merging the two entries with
  \<^verbatim>\<open>flattenNested\<close>, \<^verbatim>\<open>preserveArrays\<close> and \<^verbatim>\<open>detectSchemas\<close> enabled produces exactly the
  two records \<^verbatim>\<open>{a: 1, "b.c": 2, _source, _timestamp}\<close> and
  \<^verbatim>\<open>{a: 3, "b.c": 4, _source, _timestamp}\<close>, the fields \<^verbatim>\<open>a\<close> and \<^verbatim>\<open>b.c\<close>, and the schema
  \<^verbatim>\<open>{a: number, "b.c": number, _source: string, _timestamp: string}\<close>.
\<close>

theorem merge_scenario:
  \<open>processJsonText defaultOptions parse_error_message js_eval stringify_pretty
     ''{"a":1,"b":{"c":2}}'' ''one.json'' ''e1'' ''t1''
   = Returned (Some (stored_entry ''e1'' ''one.json'' ''{"a":1,"b":{"c":2}}''
        (stringify_pretty (JObj [(''a'', JNum 1), (''b'', JObj [(''c'', JNum 2)])]))
        [''a'', ''b.c''] ''t1''))
   \<and> processJsonText defaultOptions parse_error_message js_eval stringify_pretty
     ''{"a":3,"b":{"c":4}}'' ''two.json'' ''e2'' ''t2''
   = Returned (Some (stored_entry ''e2'' ''two.json'' ''{"a":3,"b":{"c":4}}''
        (stringify_pretty (JObj [(''a'', JNum 3), (''b'', JObj [(''c'', JNum 4)])]))
        [''a'', ''b.c''] ''t2''))
   \<and> flattenNested defaultOptions \<and> preserveArrays defaultOptions
   \<and> detectSchemas defaultOptions
   \<and> mergeSelectedEntries defaultOptions stringify newId now [''e1'', ''e2'']
     [stored_entry ''e1'' ''one.json'' ''{"a":1,"b":{"c":2}}''
        ''{\<newline>  "a": 1,\<newline>  "b": {\<newline>    "c": 2\<newline>  }\<newline>}'' [''a'', ''b.c''] ''t1'',
      stored_entry ''e2'' ''two.json'' ''{"a":3,"b":{"c":4}}''
        ''{\<newline>  "a": 3,\<newline>  "b": {\<newline>    "c": 4\<newline>  }\<newline>}'' [''a'', ''b.c''] ''t2'']
   = Inr (\<lparr>dataset_id = newId, name = ''Dataset from 2 files'',
           records =
             [[(''a'', JNum 1), (''b.c'', JNum 2), (''_source'', JStr ''one.json''),
               (''_timestamp'', JStr ''t1'')],
              [(''a'', JNum 3), (''b.c'', JNum 4), (''_source'', JStr ''two.json''),
               (''_timestamp'', JStr ''t2'')]],
           dataset_fields = [''a'', ''b.c''],
           schema =
             [(''a'', ''number''), (''b.c'', ''number''), (''_source'', ''string''),
              (''_timestamp'', ''string'')],
           dataset_timestamp = now\<rparr>, [])\<close>
proof -
  have "flattenNested defaultOptions \<and> preserveArrays defaultOptions
      \<and> detectSchemas defaultOptions"
    by (simp add: defaultOptions_def)
  then show ?thesis
    using scenario_process [of parse_error_message js_eval stringify_pretty]
      scenario_process_second [of parse_error_message js_eval stringify_pretty]
      scenario_merge [of stringify newId now]
    by (simp only: simp_thms)
qed

section \<open>The merge: arrays of scalars\<close>

lemma own_properties_scalar: "\<not> is_object v \<Longrightarrow> own_properties v = None"
  by (cases v) simp_all

lemma make_record_scalar:
  "\<not> flattenNested opts \<Longrightarrow> \<not> is_object item \<Longrightarrow> make_record opts stringify entry item = None"
  by (simp add: make_record_def own_properties_scalar)

lemma push_records_scalar:
  "\<not> flattenNested opts \<Longrightarrow> items \<noteq> [] \<Longrightarrow> \<not> is_object (hd items) \<Longrightarrow>
     push_records opts stringify entry items recs = (recs, True)"
  by (cases items) (simp_all add: make_record_scalar)

lemma merge_entry_scalar_array:
  assumes "\<not> flattenNested opts"
    and "JSON_parse (formattedJson entry) = Some (JArr items)"
    and "items \<noteq> []" and "\<forall>x\<in>set items. \<not> is_object x"
  shows "merge_entry opts stringify entry (recs, errors) = (recs, errors @ [entry_id entry])"
proof -
  have "\<not> is_object (hd items)" using assms(3,4) by simp
  then show ?thesis
    using assms by (simp add: merge_entry_def push_records_scalar)
qed

lemma merge_entry_log:
  "merge_entry opts stringify entry (recs, errors)
     = (fst (merge_entry opts stringify entry (recs, [])),
        errors @ snd (merge_entry opts stringify entry (recs, [])))"
proof (cases "JSON_parse (formattedJson entry)")
  case None
  then show ?thesis by (simp add: merge_entry_def)
next
  case (Some parsedJson)
  show ?thesis
  proof (cases parsedJson)
    case (JArr items)
    then show ?thesis
      using Some
      by (cases "push_records opts stringify entry items recs") (simp add: merge_entry_def)
  qed (use Some in \<open>simp_all add: merge_entry_def split: option.splits\<close>)
qed

lemma fold_merge_entry_log:
  "fold (merge_entry opts stringify) entries (recs, errors)
     = (fst (fold (merge_entry opts stringify) entries (recs, [])),
        errors @ snd (fold (merge_entry opts stringify) entries (recs, [])))"
proof (induction entries arbitrary: recs errors)
  case Nil
  show ?case by simp
next
  case (Cons entry entries)
  obtain recs' errors' where step: "merge_entry opts stringify entry (recs, []) = (recs', errors')"
    by (cases "merge_entry opts stringify entry (recs, [])")
  then have step': "merge_entry opts stringify entry (recs, errors) = (recs', errors @ errors')"
    using merge_entry_log [of opts stringify entry recs errors] by simp
  show ?case
    using Cons.IH [of recs' "errors @ errors'"] Cons.IH [of recs' errors']
    by (simp add: step step')
qed

lemma merge_records_skip:
  assumes "\<And>recs errors. merge_entry opts stringify entry (recs, errors)
             = (recs, errors @ [entry_id entry])"
  shows "fst (merge_records opts stringify (es1 @ entry # es2))
           = fst (merge_records opts stringify (es1 @ es2))"
    and "entry_id entry \<in> set (snd (merge_records opts stringify (es1 @ entry # es2)))"
proof -
  obtain recs1 errors1 where one: "fold (merge_entry opts stringify) es1 ([], []) = (recs1, errors1)"
    by (cases "fold (merge_entry opts stringify) es1 ([], [])")
  have with_entry: "merge_records opts stringify (es1 @ entry # es2)
      = fold (merge_entry opts stringify) es2 (recs1, errors1 @ [entry_id entry])"
    by (simp add: merge_records_def one assms)
  have without: "merge_records opts stringify (es1 @ es2)
      = fold (merge_entry opts stringify) es2 (recs1, errors1)"
    by (simp add: merge_records_def one)
  show "fst (merge_records opts stringify (es1 @ entry # es2))
           = fst (merge_records opts stringify (es1 @ es2))"
    using fold_merge_entry_log [of opts stringify es2 recs1 "errors1 @ [entry_id entry]"]
      fold_merge_entry_log [of opts stringify es2 recs1 errors1]
    by (simp add: with_entry without)
  show "entry_id entry \<in> set (snd (merge_records opts stringify (es1 @ entry # es2)))"
    using fold_merge_entry_log [of opts stringify es2 recs1 "errors1 @ [entry_id entry]"]
    by (simp add: with_entry)
qed

lemma scalar_entry_parse:
  \<open>JSON_parse (formattedJson (stored_entry ''e1'' ''list.json'' ''[1,"x"]''
        ''[\<newline>  1,\<newline>  "x"\<newline>]'' [''''] ''t1'')) = Some (JArr [JNum 1, JStr ''x''])\<close>
  by code_simp

lemma scalar_entry_merge:
  \<open>mergeSelectedEntries defaultOptions stringify newId now [''e1'']
     [stored_entry ''e1'' ''list.json'' ''[1,"x"]''
        ''[\<newline>  1,\<newline>  "x"\<newline>]'' [''''] ''t1'']
   = Inr (\<lparr>dataset_id = newId, name = ''Dataset from 1 files'',
           records = [[('''', JNum 1), (''_source'', JStr ''list.json''),
                       (''_timestamp'', JStr ''t1'')],
                      [('''', JStr ''x''), (''_source'', JStr ''list.json''),
                       (''_timestamp'', JStr ''t1'')]],
           dataset_fields = [''''],
           schema = [('''', ''string''), (''_source'', ''string''), (''_timestamp'', ''string'')],
           dataset_timestamp = now\<rparr>, [])\<close>
  by code_simp

lemma scalar_entry_process:
  \<open>processJsonText defaultOptions parse_error_message js_eval stringify_pretty
     ''[1,"x"]'' ''list.json'' ''e1'' ''t1''
   = Returned (Some (stored_entry ''e1'' ''list.json'' ''[1,"x"]''
        (stringify_pretty (JArr [JNum 1, JStr ''x''])) [''''] ''t1''))\<close>
  apply code_simp
  apply simp
  done

text \<open>
  Claim C4 as stated fails. Under the default options \<^verbatim>\<open>flattenNested\<close> is enabled and
  every element goes through the flattener, whose scalar branch (lines 258--261) stores
  the element under the empty key: the entry \<^verbatim>\<open>[1,"x"]\<close> yields two records and no
  error is logged.
\<close>

theorem merge_scalar_array_counterexample:
  \<open>(\<forall>parse_error_message js_eval stringify_pretty.
      processJsonText defaultOptions parse_error_message js_eval stringify_pretty
        ''[1,"x"]'' ''list.json'' ''e1'' ''t1''
      = Returned (Some (stored_entry ''e1'' ''list.json'' ''[1,"x"]''
           (stringify_pretty (JArr [JNum 1, JStr ''x''])) [''''] ''t1'')))
   \<and> (\<forall>stringify. \<exists>ds errs.
     JSON_parse (formattedJson (stored_entry ''e1'' ''list.json'' ''[1,"x"]''
        ''[\<newline>  1,\<newline>  "x"\<newline>]'' [''''] ''t1'')) = Some (JArr [JNum 1, JStr ''x''])
     \<and> mergeSelectedEntries defaultOptions stringify ''d1'' ''now'' [''e1'']
         [stored_entry ''e1'' ''list.json'' ''[1,"x"]''
            ''[\<newline>  1,\<newline>  "x"\<newline>]'' [''''] ''t1'']
       = Inr (ds, errs)
     \<and> records ds = [[('''', JNum 1), (''_source'', JStr ''list.json''),
                       (''_timestamp'', JStr ''t1'')],
                      [('''', JStr ''x''), (''_source'', JStr ''list.json''),
                       (''_timestamp'', JStr ''t1'')]]
     \<and> errs = [])\<close>
  by (simp add: scalar_entry_parse scalar_entry_merge scalar_entry_process)

text \<open>
  Claim C4, amended. When \<^verbatim>\<open>flattenNested\<close> is disabled, for every selected entry (of a
  status other than \<^verbatim>\<open>error\<close>) whose parsed value is a non-empty array of scalar
  elements, the merge returns a dataset, the records of the dataset are exactly those the
  other selected entries produce, none coming from the array, and the identifier of the
  entry is in the log of reported errors.
\<close>

theorem merge_skips_scalar_array:
  assumes "\<not> flattenNested opts"
    and "JSON_parse (formattedJson entry) = Some (JArr items)"
    and "items \<noteq> []" and "\<forall>x\<in>set items. \<not> is_object x"
    and "entry_id entry \<in> set selectedEntries" and "status entry \<noteq> Error"
  shows "\<exists>ds errs.
           mergeSelectedEntries opts stringify newId now selectedEntries (es1 @ entry # es2)
             = Inr (ds, errs)
           \<and> records ds
               = fst (merge_records opts stringify
                   (filter (\<lambda>e. entry_id e \<in> set selectedEntries \<and> status e \<noteq> Error)
                      (es1 @ es2)))
           \<and> entry_id entry \<in> set errs"
proof -
  let ?sel = "\<lambda>e. entry_id e \<in> set selectedEntries \<and> status e \<noteq> Error"
  have split: "filter ?sel (es1 @ entry # es2) = filter ?sel es1 @ entry # filter ?sel es2"
    using assms(5,6) by simp
  have skip: "merge_entry opts stringify entry (recs, errors) = (recs, errors @ [entry_id entry])"
    for recs errors
    using assms(1-4) by (rule merge_entry_scalar_array)
  have "selectedEntries \<noteq> []" using assms(5) by auto
  moreover have "filter ?sel (es1 @ entry # es2) \<noteq> []"
    by (simp only: split) simp
  ultimately obtain ds errs where
    merged: "mergeSelectedEntries opts stringify newId now selectedEntries (es1 @ entry # es2)
       = Inr (ds, errs)"
    using merge_returns by blast
  have "records ds = fst (merge_records opts stringify (filter ?sel es1 @ entry # filter ?sel es2))"
    and "errs = snd (merge_records opts stringify (filter ?sel es1 @ entry # filter ?sel es2))"
    using merge_result(2,3) [OF merged] by (simp_all only: split)
  then have "records ds = fst (merge_records opts stringify (filter ?sel (es1 @ es2)))"
    and "entry_id entry \<in> set errs"
    using merge_records_skip [of opts stringify entry "filter ?sel es1" "filter ?sel es2", OF skip]
    by simp_all
  with merged show ?thesis by blast
qed

text \<open>
  The amended claim at the merge of the entry \<^verbatim>\<open>[1,"x"]\<close> and the second entry of the
  scenario, \<^verbatim>\<open>flattenNested\<close> disabled.
\<close>

theorem merge_skips_scalar_array_witness:
  \<open>\<forall>stringify. \<exists>ds errs.
     mergeSelectedEntries (defaultOptions\<lparr>flattenNested := False\<rparr>) stringify ''d1'' ''now''
         [''e1'', ''e2'']
         ([] @ stored_entry ''e1'' ''list.json'' ''[1,"x"]''
            ''[\<newline>  1,\<newline>  "x"\<newline>]'' [''''] ''t1''
          # [stored_entry ''e2'' ''two.json'' ''{"a":3,"b":{"c":4}}''
            ''{\<newline>  "a": 3,\<newline>  "b": {\<newline>    "c": 4\<newline>  }\<newline>}'' [''a'', ''b.c''] ''t2''])
       = Inr (ds, errs)
     \<and> records ds = [[(''a'', JNum 3), (''b'', JObj [(''c'', JNum 4)]),
                       (''_source'', JStr ''two.json''), (''_timestamp'', JStr ''t2'')]]
     \<and> ''e1'' \<in> set errs\<close>
proof
  fix stringify
  let ?opts = "defaultOptions\<lparr>flattenNested := False\<rparr>"
  let ?e1 = \<open>stored_entry ''e1'' ''list.json'' ''[1,"x"]''
            ''[\<newline>  1,\<newline>  "x"\<newline>]'' [''''] ''t1''\<close>
  let ?e2 = \<open>stored_entry ''e2'' ''two.json'' ''{"a":3,"b":{"c":4}}''
            ''{\<newline>  "a": 3,\<newline>  "b": {\<newline>    "c": 4\<newline>  }\<newline>}'' [''a'', ''b.c''] ''t2''\<close>
  have h1: "\<not> flattenNested ?opts" by simp
  have h2: "JSON_parse (formattedJson ?e1) = Some (JArr [JNum 1, JStr ''x''])"
    by (rule scalar_entry_parse)
  have h3: "[JNum 1, JStr ''x''] \<noteq> []" by simp
  have h4: "\<forall>x\<in>set [JNum 1, JStr ''x'']. \<not> is_object x" by simp
  have h5: "entry_id ?e1 \<in> set [''e1'', ''e2'']" by (simp add: stored_entry_def)
  have h6: "status ?e1 \<noteq> Error" by (simp add: stored_entry_def)
  have others: "fst (merge_records ?opts stringify
          (filter (\<lambda>e. entry_id e \<in> set [''e1'', ''e2''] \<and> status e \<noteq> Error) ([] @ [?e2])))
      = [[(''a'', JNum 3), (''b'', JObj [(''c'', JNum 4)]),
          (''_source'', JStr ''two.json''), (''_timestamp'', JStr ''t2'')]]"
    by code_simp
  from merge_skips_scalar_array [OF h1 h2 h3 h4 h5 h6, of stringify "''d1''" "''now''" "[]" "[?e2]"]
  show "\<exists>ds errs.
     mergeSelectedEntries ?opts stringify ''d1'' ''now'' [''e1'', ''e2''] ([] @ ?e1 # [?e2])
       = Inr (ds, errs)
     \<and> records ds = [[(''a'', JNum 3), (''b'', JObj [(''c'', JNum 4)]),
                       (''_source'', JStr ''two.json''), (''_timestamp'', JStr ''t2'')]]
     \<and> ''e1'' \<in> set errs"
    unfolding others by (simp add: stored_entry_def)
qed

section \<open>The merge: no field of unknown type\<close>

text \<open>
  Claim C10. In every schema a merge with \<^verbatim>\<open>detectSchemas\<close> enabled produces, every key
  of the schema has a non-empty set of observed types and is not mapped to
  \<^verbatim>\<open>unknown\<close>: the keys of the schema are keys of records, so the branch for zero
  observed types is never taken.
\<close>

theorem merge_schema_never_unknown:
  assumes "mergeSelectedEntries opts stringify newId now selectedEntries processedEntries
             = Inr (ds, errs)"
    and "detectSchemas opts"
    and key: "key \<in> fst ` set (schema ds)"
  shows "observed_types (records ds) key \<noteq> []
           \<and> map_of (schema ds) key \<noteq> Some ''unknown''"
proof -
  have nonempty: "records ds \<noteq> []"
    using key merge_result(4) [OF assms(1)] by (auto split: if_splits)
  then have schema: "schema ds = infer_schema (records ds)"
    using merge_result(4) [OF assms(1)] assms(2) by simp
  with key obtain r where r: "r \<in> set (records ds)" "key \<in> fst ` set r"
    and ordinary: "key \<noteq> ''__proto__''"
    by (auto simp: keys_infer_schema)
  from r have types: "observed_types (records ds) key \<noteq> []"
    by (rule observed_types_nonempty)
  have "key \<in> set (all_keys (records ds))"
    using r by (auto simp: set_all_keys)
  then have "map_of (schema ds) key = Some (schema_type (observed_types (records ds) key))"
    by (simp add: schema map_of_infer_schema ordinary)
  with types show ?thesis
    by (simp add: schema_type_not_unknown)
qed

text \<open>The claim at the key \<^verbatim>\<open>b.c\<close> of the dataset of the scenario.\<close>

theorem merge_schema_never_unknown_witness:
  \<open>\<forall>stringify. \<exists>ds errs.
     mergeSelectedEntries defaultOptions stringify ''d1'' ''now'' [''e1'', ''e2'']
       [stored_entry ''e1'' ''one.json'' ''{"a":1,"b":{"c":2}}''
          ''{\<newline>  "a": 1,\<newline>  "b": {\<newline>    "c": 2\<newline>  }\<newline>}'' [''a'', ''b.c''] ''t1'',
        stored_entry ''e2'' ''two.json'' ''{"a":3,"b":{"c":4}}''
          ''{\<newline>  "a": 3,\<newline>  "b": {\<newline>    "c": 4\<newline>  }\<newline>}'' [''a'', ''b.c''] ''t2'']
       = Inr (ds, errs)
     \<and> detectSchemas defaultOptions
     \<and> ''b.c'' \<in> fst ` set (schema ds)
     \<and> observed_types (records ds) ''b.c'' \<noteq> []
     \<and> map_of (schema ds) ''b.c'' \<noteq> Some ''unknown''\<close>
proof
  fix stringify
  let ?entries = \<open>[stored_entry ''e1'' ''one.json'' ''{"a":1,"b":{"c":2}}''
          ''{\<newline>  "a": 1,\<newline>  "b": {\<newline>    "c": 2\<newline>  }\<newline>}'' [''a'', ''b.c''] ''t1'',
        stored_entry ''e2'' ''two.json'' ''{"a":3,"b":{"c":4}}''
          ''{\<newline>  "a": 3,\<newline>  "b": {\<newline>    "c": 4\<newline>  }\<newline>}'' [''a'', ''b.c''] ''t2'']\<close>
  obtain ds errs where
    merged: "mergeSelectedEntries defaultOptions stringify ''d1'' ''now'' [''e1'', ''e2''] ?entries
       = Inr (ds, errs)"
    and key: "''b.c'' \<in> fst ` set (schema ds)"
    by (simp add: scenario_merge)
  from merge_schema_never_unknown [OF merged detectSchemas_default key] merged key
  show "\<exists>ds errs.
     mergeSelectedEntries defaultOptions stringify ''d1'' ''now'' [''e1'', ''e2''] ?entries
       = Inr (ds, errs)
     \<and> detectSchemas defaultOptions
     \<and> ''b.c'' \<in> fst ` set (schema ds)
     \<and> observed_types (records ds) ''b.c'' \<noteq> []
     \<and> map_of (schema ds) ''b.c'' \<noteq> Some ''unknown''"
    using detectSchemas_default by blast
qed

end
